theory Spec2Isabelle
  imports Complex_Main "HOL-Library.AList" "HOL-Library.Word"
begin

section \<open>The result cache of ultrafast.js\<close>

text \<open>
  Strings are HOL strings, read as sequences of code units below 256 (Latin-1); only
  the query handed to \<^verbatim>\<open>executeParallelSearches\<close> is kept as UTF-16 code units.
  JSON values received from the search server are kept as a datatype, because the
  code inspects them dynamically (\<^verbatim>\<open>data.results || []\<close>, \<^verbatim>\<open>.map\<close>, object spread).
  A number is kept as a rational, the value of the parsed double; only whether it is
  zero is ever looked at. An object
  is the list of its properties in enumeration order, no key twice.
\<close>

datatype json =
    JNull
  | JBool bool
  | JNum rat
  | JStr string
  | JArr "json list"
  | JObj "(string \<times> json) list"

text \<open>
  \<^verbatim>\<open>String.prototype.toLowerCase\<close> on code units below 256: the letters A-Z and the
  Latin-1 capitals U+00C0-U+00DE (without the multiplication sign U+00D7) move up by 32.
\<close>

definition lower_char :: "char \<Rightarrow> char" where
  "lower_char c =
     (let n = (of_char c :: nat)
      in if (65 \<le> n \<and> n \<le> 90) \<or> (192 \<le> n \<and> n \<le> 222 \<and> n \<noteq> 215)
         then char_of (n + 32) else c)"

definition toLowerCase :: "string \<Rightarrow> string" where
  "toLowerCase s = map lower_char s"

text \<open>Lines 3-4: the two constants. Times are milliseconds, as \<^verbatim>\<open>Date.now()\<close> gives them.\<close>

definition CACHE_DURATION :: int where
  "CACHE_DURATION = 15 * 60 * 1000"

definition MAX_CACHE_SIZE :: nat where
  "MAX_CACHE_SIZE = 200"

text \<open>
  Line 2: \<^verbatim>\<open>searchCache\<close> is a JavaScript \<^verbatim>\<open>Map\<close>. A \<^verbatim>\<open>Map\<close> iterates in insertion
  order, \<^verbatim>\<open>set\<close> on a key already present changes the value where it stands, and
  \<^verbatim>\<open>keys().next().value\<close> is the key inserted first. An association list in insertion
  order with \<open>AList.update\<close> and \<open>AList.delete\<close> behaves the same way.
\<close>

record cache_entry =
  results :: "json list"
  timestamp :: int

type_synonym cache = "(string \<times> cache_entry) list"

text \<open>Lines 8 and 20: the template literal \<^verbatim>\<open>`${query.toLowerCase()}_${selectedOption}`\<close>.\<close>

definition cacheKey :: "string \<Rightarrow> string \<Rightarrow> string" where
  "cacheKey query selectedOption = toLowerCase query @ ''_'' @ selectedOption"

text \<open>
  Lines 7-17. \<open>now\<close> is the value of \<^verbatim>\<open>Date.now()\<close>. The result is the returned value
  (\<open>None\<close> for \<^verbatim>\<open>null\<close>) together with the cache after the call.
\<close>

definition getCachedResults ::
  "string \<Rightarrow> string \<Rightarrow> int \<Rightarrow> cache \<Rightarrow> json list option \<times> cache" where
  "getCachedResults query selectedOption now searchCache =
     (case map_of searchCache (cacheKey query selectedOption) of
        Some cached \<Rightarrow>
          if now - timestamp cached < CACHE_DURATION
          then (Some (results cached), searchCache)
          else (None, searchCache)
      | None \<Rightarrow> (None, searchCache))"

text \<open>\<^verbatim>\<open>searchCache.keys().next().value\<close>: \<open>None\<close> stands for \<^verbatim>\<open>undefined\<close>.\<close>

definition firstKey :: "cache \<Rightarrow> string option" where
  "firstKey searchCache = (case searchCache of [] \<Rightarrow> None | (k, _) # _ \<Rightarrow> Some k)"

definition evictOldest :: "cache \<Rightarrow> cache" where
  "evictOldest searchCache =
     (case firstKey searchCache of
        None \<Rightarrow> searchCache
      | Some k \<Rightarrow> AList.delete k searchCache)"

text \<open>Lines 19-31.\<close>

definition setCachedResults ::
  "string \<Rightarrow> string \<Rightarrow> json list \<Rightarrow> int \<Rightarrow> cache \<Rightarrow> cache" where
  "setCachedResults query selectedOption res now searchCache =
     (let searchCache' =
            (if length searchCache \<ge> MAX_CACHE_SIZE
             then evictOldest searchCache else searchCache)
      in AList.update (cacheKey query selectedOption)
           \<lparr>results = res, timestamp = now\<rparr> searchCache')"

text \<open>A call of \<^verbatim>\<open>setCachedResults\<close>: query, option, results and the clock at the call.\<close>

type_synonym store_call = "string \<times> string \<times> json list \<times> int"

fun store :: "cache \<Rightarrow> store_call \<Rightarrow> cache" where
  "store c (query, selectedOption, res, now) = setCachedResults query selectedOption res now c"

definition stores :: "cache \<Rightarrow> store_call list \<Rightarrow> cache" where
  "stores c calls = foldl store c calls"

fun callKey :: "store_call \<Rightarrow> string" where
  "callKey (query, selectedOption, res, now) = cacheKey query selectedOption"

text \<open>The inputs used for concrete instances: \<open>n\<close> calls under \<open>n\<close> different keys.\<close>

fun callEntry :: "store_call \<Rightarrow> cache_entry" where
  "callEntry (query, selectedOption, res, now) = \<lparr>results = res, timestamp = now\<rparr>"

definition stored :: "store_call \<Rightarrow> string \<times> cache_entry" where
  "stored call = (callKey call, callEntry call)"

definition sample_calls :: "nat \<Rightarrow> store_call list" where
  "sample_calls n = map (\<lambda>i. (replicate (Suc i) CHR ''a'', ''Pages'', [], int i)) [0..<n]"

definition full_cache :: cache where
  "full_cache = stores [] (sample_calls 200)"

text \<open>Lines 85 and 93: the filter options the code compares \<^verbatim>\<open>selectedOption\<close> with.\<close>

definition filterOptions :: "string set" where
  "filterOptions = {''Pages'', ''Collection'', ''Both''}"

section \<open>Requests: \<^verbatim>\<open>fetch\<close>, \<^verbatim>\<open>optimizedFetch\<close>\<close>

text \<open>
  An exception value, as far as the code reads it (\<^verbatim>\<open>error.name\<close>, \<^verbatim>\<open>error.message\<close>),
  and a response (\<^verbatim>\<open>response.ok\<close>, \<^verbatim>\<open>response.statusText\<close>, \<^verbatim>\<open>response.json()\<close>).
  \<open>json_body\<close> is what \<^verbatim>\<open>response.json()\<close> does: it resolves to the parsed value, it
  rejects because the body is not JSON, or it never settles because the body never
  completes (the headers have arrived, line 60 has cleared the timer, and nothing bounds
  the wait of line 106).
\<close>

record js_error =
  name :: string
  message :: string

datatype body_outcome = Parsed json | Unparseable | NeverCompletes

record response =
  status :: nat
  statusText :: string
  json_body :: body_outcome

definition ok :: "response \<Rightarrow> bool" where
  "ok r = (200 \<le> status r \<and> status r \<le> 299)"

definition AbortError :: js_error where
  "AbortError = \<lparr>name = ''AbortError'', message = ''signal is aborted without reason''\<rparr>"

definition FetchFailed :: js_error where
  "FetchFailed = \<lparr>name = ''TypeError'', message = ''Failed to fetch''\<rparr>"

definition JsonSyntaxError :: js_error where
  "JsonSyntaxError = \<lparr>name = ''SyntaxError'', message = ''Unexpected token in JSON''\<rparr>"

definition NullRead :: js_error where
  "NullRead = \<lparr>name = ''TypeError'',
     message = ''Cannot read properties of null (reading 'results')''\<rparr>"

definition NotAFunction :: js_error where
  "NotAFunction = \<lparr>name = ''TypeError'', message = ''result.value.data.map is not a function''\<rparr>"

definition URIError :: js_error where
  "URIError = \<lparr>name = ''URIError'', message = ''URI malformed''\<rparr>"

text \<open>
  Two places create an \<^verbatim>\<open>AbortController\<close>: line 46 (one per call of \<^verbatim>\<open>optimizedFetch\<close>,
  aborted only by the timer of line 47) and line 83 (one per search, the \<open>n\<close>-th one
  numbered \<open>n\<close>, aborted by line 80 of the next search). A signal names its controller.
\<close>

datatype abort_signal = TimeoutSignal | SearchSignal nat

record fetch_init =
  headers :: "(string \<times> string) list"
  signal :: "abort_signal option"
  keepalive :: bool

text \<open>
  What the network does with one request that nobody aborts: after so many milliseconds
  a response arrives, or the request fails (connection, DNS).
\<close>

datatype wire = Arrives nat response | Fails nat

fun delay :: "wire \<Rightarrow> nat" where
  "delay (Arrives d r) = d"
| "delay (Fails d) = d"

text \<open>
  The browser's \<^verbatim>\<open>fetch\<close> for one call made inside the \<^verbatim>\<open>try\<close> of lines 49-58, with the
  timer of line 47 running: the timer aborts the controller of line 46 when its 10000 ms
  pass before the request settles. \<open>cs\<close> holds the numbers of the search controllers
  aborted before the request settles. \<^verbatim>\<open>fetch\<close> rejects with an \<^verbatim>\<open>AbortError\<close> exactly
  when the signal it was given is aborted.
\<close>

definition aborted :: "nat set \<Rightarrow> wire \<Rightarrow> abort_signal option \<Rightarrow> bool" where
  "aborted cs w s =
     (case s of
        None \<Rightarrow> False
      | Some TimeoutSignal \<Rightarrow> 10000 \<le> delay w
      | Some (SearchSignal n) \<Rightarrow> n \<in> cs)"

definition fetch :: "nat set \<Rightarrow> wire \<Rightarrow> fetch_init \<Rightarrow> js_error + response" where
  "fetch cs w init =
     (if aborted cs w (signal init) then Inl AbortError
      else case w of Arrives d r \<Rightarrow> Inr r | Fails d \<Rightarrow> Inl FetchFailed)"

text \<open>
  Lines 45-72. The \<^verbatim>\<open>url\<close> argument is represented by \<open>wires\<close>, what the network does
  with requests to that URL: \<open>wires k\<close> is the fate of the \<open>k\<close>-th attempt. The object
  literal of lines 50-58 spreads \<^verbatim>\<open>options\<close> first and sets \<^verbatim>\<open>signal\<close>, \<^verbatim>\<open>keepalive\<close>
  and \<^verbatim>\<open>headers\<close> after it, so these three replace what \<^verbatim>\<open>options\<close> carried. The
  result comes with the calls made: each \<^verbatim>\<open>fetch\<close> and each wait of line 66.
\<close>

datatype effect = FetchCall | Backoff nat

definition requestInit :: "fetch_init \<Rightarrow> fetch_init" where
  "requestInit options =
     options\<lparr>signal := Some TimeoutSignal, keepalive := True,
       headers := AList.update ''Connection'' ''keep-alive'' (headers options)\<rparr>"

fun optimizedFetch ::
  "nat set \<Rightarrow> (nat \<Rightarrow> wire) \<Rightarrow> fetch_init \<Rightarrow> nat \<Rightarrow> effect list \<times> (js_error + response)" where
  "optimizedFetch cs wires options retries =
     (case fetch cs (wires 0) (requestInit options) of
        Inr resp \<Rightarrow> ([FetchCall], Inr resp)
      | Inl err \<Rightarrow>
          if retries > 0 \<and> name err \<noteq> ''AbortError''
          then (let (trace, outcome) = optimizedFetch cs (\<lambda>k. wires (Suc k)) options (retries - 1)
                in (FetchCall # Backoff 300 # trace, outcome))
          else ([FetchCall], Inl err))"

declare optimizedFetch.simps [simp del]

section \<open>\<^verbatim>\<open>encodeURIComponent\<close> and the two URLs\<close>

text \<open>
  The query reaches \<^verbatim>\<open>executeParallelSearches\<close> as a JavaScript string: a sequence of
  UTF-16 code units. \<^verbatim>\<open>encodeURIComponent\<close> reads it as code points, throws a
  \<^verbatim>\<open>URIError\<close> when a surrogate stands alone, keeps the characters
  \<^verbatim>\<open>A-Z a-z 0-9 - _ . ! ~ * ' ( )\<close> and writes every other code point as the
  percent-escaped octets of its UTF-8 form.
\<close>

type_synonym code_unit = "16 word"

definition units :: "string \<Rightarrow> code_unit list" where
  "units s = map (\<lambda>c. of_nat (of_char c)) s"

definition high_surrogate :: "code_unit \<Rightarrow> bool" where
  "high_surrogate u = (0xD800 \<le> u \<and> u \<le> 0xDBFF)"

definition low_surrogate :: "code_unit \<Rightarrow> bool" where
  "low_surrogate u = (0xDC00 \<le> u \<and> u \<le> 0xDFFF)"

fun code_points :: "code_unit list \<Rightarrow> nat list option" where
  "code_points [] = Some []"
| "code_points [u] = (if high_surrogate u \<or> low_surrogate u then None else Some [unat u])"
| "code_points (u # v # rest) =
     (if high_surrogate u then
        (if low_surrogate v
         then map_option ((#) (0x10000 + (unat u - 0xD800) * 0x400 + (unat v - 0xDC00)))
                (code_points rest)
         else None)
      else if low_surrogate u then None
      else map_option ((#) (unat u)) (code_points (v # rest)))"

definition utf8 :: "nat \<Rightarrow> nat list" where
  "utf8 cp =
     (if cp < 0x80 then [cp]
      else if cp < 0x800 then [0xC0 + cp div 0x40, 0x80 + cp mod 0x40]
      else if cp < 0x10000 then
        [0xE0 + cp div 0x1000, 0x80 + cp div 0x40 mod 0x40, 0x80 + cp mod 0x40]
      else [0xF0 + cp div 0x40000, 0x80 + cp div 0x1000 mod 0x40,
            0x80 + cp div 0x40 mod 0x40, 0x80 + cp mod 0x40])"

definition hex_digit :: "nat \<Rightarrow> char" where
  "hex_digit n = (if n < 10 then char_of (48 + n) else char_of (55 + n))"

definition percent :: "nat \<Rightarrow> string" where
  "percent b = [CHR ''%'', hex_digit (b div 16), hex_digit (b mod 16)]"

definition unescaped :: "nat \<Rightarrow> bool" where
  "unescaped cp =
     ((65 \<le> cp \<and> cp \<le> 90) \<or> (97 \<le> cp \<and> cp \<le> 122) \<or> (48 \<le> cp \<and> cp \<le> 57)
      \<or> cp \<in> {45, 95, 46, 33, 126, 42, 39, 40, 41})"

definition escape :: "nat \<Rightarrow> string" where
  "escape cp = (if unescaped cp then [char_of cp] else concat (map percent (utf8 cp)))"

definition encodeURIComponent :: "code_unit list \<Rightarrow> js_error + string" where
  "encodeURIComponent s =
     (case code_points s of
        None \<Rightarrow> Inl URIError
      | Some cps \<Rightarrow> Inr (concat (map escape cps)))"

text \<open>
  What \<^verbatim>\<open>executeParallelSearches\<close> is handed besides the query and the option, and the
  template literals of lines 87 and 95, given the encoded query.
\<close>

record search_config =
  siteName :: string
  token :: string
  collectionsParam :: string
  fieldsSearchParam :: string
  fieldsDisplayParam :: string

definition searchIndexUrl :: "string \<Rightarrow> search_config \<Rightarrow> string" where
  "searchIndexUrl q cfg =
     ''https://search-server.long-rain-28bb.workers.dev/api/search-index?query='' @ q
     @ ''&siteName='' @ siteName cfg @ ''&limit=50''"

definition searchCmsUrl :: "string \<Rightarrow> search_config \<Rightarrow> string" where
  "searchCmsUrl q cfg =
     ''https://search-server.long-rain-28bb.workers.dev/api/search-cms?query='' @ q
     @ ''&siteName='' @ siteName cfg @ ''&collections='' @ collectionsParam cfg
     @ ''&searchFields='' @ fieldsSearchParam cfg
     @ ''&displayFields='' @ fieldsDisplayParam cfg @ ''&limit=50''"

definition searchUrl :: "string \<Rightarrow> string \<Rightarrow> search_config \<Rightarrow> string" where
  "searchUrl t q cfg = (if t = ''page'' then searchIndexUrl q cfg else searchCmsUrl q cfg)"

section \<open>\<^verbatim>\<open>executeParallelSearches\<close>\<close>

text \<open>JavaScript truthiness of a JSON value, and \<^verbatim>\<open>data.results\<close> (\<open>None\<close>: \<^verbatim>\<open>undefined\<close>).\<close>

fun truthy :: "json \<Rightarrow> bool" where
  "truthy JNull = False"
| "truthy (JBool b) = b"
| "truthy (JNum x) = (x \<noteq> 0)"
| "truthy (JStr s) = (s \<noteq> [])"
| "truthy (JArr xs) = True"
| "truthy (JObj fs) = True"

fun get_results :: "json \<Rightarrow> js_error + json option" where
  "get_results JNull = Inl NullRead"
| "get_results (JObj fs) = Inr (map_of fs ''results'')"
| "get_results v = Inr None"

text \<open>\<^verbatim>\<open>data.results || []\<close>\<close>

definition or_empty :: "json option \<Rightarrow> json" where
  "or_empty v = (case v of None \<Rightarrow> JArr [] | Some x \<Rightarrow> if truthy x then x else JArr [])"

text \<open>
  The objects built at lines 107, 109 and 112, and lines 102-114: the function mapped
  over \<^verbatim>\<open>searchPromises\<close>, given what the promise settled to. \<open>None\<close>: the function
  never returns, because \<^verbatim>\<open>response.json()\<close> never settles.
\<close>

record sub_result =
  type :: string
  data :: json
  success :: bool
  error :: "string option"

definition settle_one :: "string \<Rightarrow> js_error + response \<Rightarrow> sub_result option" where
  "settle_one t p =
     (case p of
        Inl err \<Rightarrow>
          Some \<lparr>type = t, data = JArr [], success = False, error = Some (message err)\<rparr>
      | Inr resp \<Rightarrow>
          if ok resp then
            (case json_body resp of
               NeverCompletes \<Rightarrow> None
             | Unparseable \<Rightarrow>
                 Some \<lparr>type = t, data = JArr [], success = False,
                        error = Some (message JsonSyntaxError)\<rparr>
             | Parsed d \<Rightarrow>
                 (case get_results d of
                    Inl err \<Rightarrow> Some \<lparr>type = t, data = JArr [], success = False,
                                       error = Some (message err)\<rparr>
                  | Inr r \<Rightarrow> Some \<lparr>type = t, data = or_empty r, success = True,
                                    error = None\<rparr>))
          else Some \<lparr>type = t, data = JArr [], success = False,
                      error = Some (statusText resp)\<rparr>)"

text \<open>
  Line 120: \<^verbatim>\<open>{ ...item, _type: type }\<close>. Spreading copies the own enumerable properties:
  those of an object, the indices of an array or of a string, none of anything else.
\<close>

fun digits :: "nat \<Rightarrow> string" where
  "digits n = (if n < 10 then [char_of (48 + n)] else digits (n div 10) @ [char_of (48 + n mod 10)])"

fun own_props :: "json \<Rightarrow> (string \<times> json) list" where
  "own_props (JObj fs) = fs"
| "own_props (JArr xs) = zip (map digits [0..<length xs]) xs"
| "own_props (JStr s) = zip (map digits [0..<length s]) (map (\<lambda>c. JStr [c]) s)"
| "own_props v = []"

definition tag :: "string \<Rightarrow> json \<Rightarrow> json" where
  "tag t item = JObj (AList.update ''_type'' (JStr t) (own_props item))"

text \<open>\<^verbatim>\<open>result.value.data.map(...)\<close>: only an array has \<^verbatim>\<open>map\<close>.\<close>

definition map_items :: "string \<Rightarrow> json \<Rightarrow> js_error + json list" where
  "map_items t d = (case d of JArr items \<Rightarrow> Inr (map (tag t) items) | _ \<Rightarrow> Inl NotAFunction)"

datatype 'a settled = Fulfilled 'a | Rejected js_error

text \<open>
  \<^verbatim>\<open>Promise.allSettled\<close> over promises that fulfil or never settle (the mapped function
  catches every rejection): it stays pending, \<open>None\<close>, as long as one of them does.
\<close>

fun allSettled :: "'a option list \<Rightarrow> 'a settled list option" where
  "allSettled [] = Some []"
| "allSettled (None # ps) = None"
| "allSettled (Some v # ps) = map_option ((#) (Fulfilled v)) (allSettled ps)"

text \<open>Lines 117-125: the \<^verbatim>\<open>forEach\<close> over the settled results; a throw ends it.\<close>

fun merge :: "sub_result settled list \<Rightarrow> json list \<Rightarrow> js_error + json list" where
  "merge [] allResults = Inr allResults"
| "merge (Rejected e # rest) allResults = merge rest allResults"
| "merge (Fulfilled v # rest) allResults =
     (if success v
      then (case map_items (type v) (data v) of
              Inl err \<Rightarrow> Inl err
            | Inr typeData \<Rightarrow> merge rest (allResults @ typeData))
      else merge rest allResults)"

text \<open>
  The page state the search code shares: the cache, \<^verbatim>\<open>currentSearchController\<close> (line 43),
  the search controllers aborted so far, and how many were created.
\<close>

record search_state =
  searchCache :: cache
  currentSearchController :: "nat option"
  cancelled :: "nat set"
  controllers :: nat

definition initial_state :: search_state where
  "initial_state = \<lparr>searchCache = [], currentSearchController = None,
     cancelled = {}, controllers = 0\<rparr>"

text \<open>
  Lines 85-99: which sub-requests are issued, in the order they are pushed, and the call
  of \<^verbatim>\<open>optimizedFetch\<close> for one URL under search controller \<open>n\<close>. \<open>net url k\<close> is what
  the network does with the \<open>k\<close>-th request to \<open>url\<close>. A promise is what the call
  settles to, given the controllers aborted by then.
\<close>

definition declared :: "string \<Rightarrow> string list" where
  "declared selectedOption =
     (if selectedOption = ''Pages'' \<or> selectedOption = ''Both'' then [''page''] else [])
     @ (if selectedOption = ''Collection'' \<or> selectedOption = ''Both'' then [''cms''] else [])"

definition subrequest ::
  "string \<Rightarrow> (string \<Rightarrow> nat \<Rightarrow> wire) \<Rightarrow> nat \<Rightarrow> string \<Rightarrow> nat set
   \<Rightarrow> effect list \<times> (js_error + response)" where
  "subrequest tok net n url cs =
     optimizedFetch cs (net url)
       \<lparr>headers = [(''Authorization'', ''Bearer '' @ tok)],
        signal = Some (SearchSignal n), keepalive = False\<rparr> 1"

type_synonym promise = "nat set \<Rightarrow> effect list \<times> (js_error + response)"

text \<open>
  Lines 76-99, up to the \<^verbatim>\<open>await\<close> of line 101. The template literals of lines 87 and
  95 call \<^verbatim>\<open>encodeURIComponent(query)\<close> outside any \<^verbatim>\<open>try\<close>: when it throws, the call
  rejects there, after lines 79-83 have replaced the controller and before any request
  is made.
\<close>

definition executeParallelSearches_issue ::
  "code_unit list \<Rightarrow> string \<Rightarrow> search_config \<Rightarrow> (string \<Rightarrow> nat \<Rightarrow> wire) \<Rightarrow> search_state
   \<Rightarrow> (js_error + (string \<times> promise) list) \<times> search_state" where
  "executeParallelSearches_issue query selectedOption cfg net st =
     (let st1 = (case currentSearchController st of
                   Some old \<Rightarrow> st\<lparr>cancelled := insert old (cancelled st)\<rparr>
                 | None \<Rightarrow> st);
          n = controllers st1;
          st2 = st1\<lparr>currentSearchController := Some n, controllers := Suc n\<rparr>;
          pagePart =
            (if selectedOption = ''Pages'' \<or> selectedOption = ''Both'' then
               (case encodeURIComponent query of
                  Inl err \<Rightarrow> Inl err
                | Inr q \<Rightarrow> Inr [(''page'', subrequest (token cfg) net n (searchIndexUrl q cfg))])
             else Inr []);
          cmsPart =
            (if selectedOption = ''Collection'' \<or> selectedOption = ''Both'' then
               (case encodeURIComponent query of
                  Inl err \<Rightarrow> Inl err
                | Inr q \<Rightarrow> Inr [(''cms'', subrequest (token cfg) net n (searchCmsUrl q cfg))])
             else Inr [])
      in (case pagePart of
            Inl err \<Rightarrow> Inl err
          | Inr pagePromises \<Rightarrow>
              (case cmsPart of
                 Inl err \<Rightarrow> Inl err
               | Inr cmsPromises \<Rightarrow> Inr (pagePromises @ cmsPromises)),
          st2))"

text \<open>
  Lines 101-126, given the promises. \<open>None\<close>: the \<^verbatim>\<open>await\<close> of line 101 never
  returns.
\<close>

definition executeParallelSearches_settle ::
  "nat set \<Rightarrow> (string \<times> promise) list \<Rightarrow> (js_error + json list) option" where
  "executeParallelSearches_settle cs searchPromises =
     map_option (\<lambda>settledResults. merge settledResults [])
       (allSettled (map (\<lambda>(t, p). settle_one t (snd (p cs))) searchPromises))"

text \<open>
  A whole call, with nothing else running between its two halves: what the returned
  promise does (\<open>None\<close>: it stays pending, \<open>Inl\<close>: it rejects, \<open>Inr\<close>: it resolves) and
  the state the call leaves.
\<close>

definition executeParallelSearches ::
  "code_unit list \<Rightarrow> string \<Rightarrow> search_config \<Rightarrow> (string \<Rightarrow> nat \<Rightarrow> wire) \<Rightarrow> search_state
   \<Rightarrow> (js_error + json list) option \<times> search_state" where
  "executeParallelSearches query selectedOption cfg net st =
     (let (issued, st') = executeParallelSearches_issue query selectedOption cfg net st
      in case issued of
           Inl err \<Rightarrow> (Some (Inl err), st')
         | Inr searchPromises \<Rightarrow>
             (executeParallelSearches_settle (cancelled st') searchPromises, st'))"

section \<open>The callers: \<^verbatim>\<open>performSearchFast\<close> and \<^verbatim>\<open>preloadSearchData\<close>\<close>

text \<open>
  What ends up in \<^verbatim>\<open>resultsContainer\<close>; \<open>Spinner\<close> is the container emptied at line 1333
  with the spinner showing, which is how the page stays when the call never resumes.
\<close>

datatype rendered =
  Untouched | Spinner | NoResultsMessage | ResultCards "json list" | ErrorMessage

text \<open>
  Lines 1281-1406, run without another search in between. \<open>query\<close> is the trimmed text of
  lines 1282-1292, here with code units below 256 as the cache has them; \<open>now0\<close> is the
  clock at the lookup of line 1298 and \<open>now1\<close> the clock at the store of line 1375. An
  array, also the empty one, is truthy at line 1299.
\<close>

definition performSearchFast ::
  "string \<Rightarrow> string \<Rightarrow> search_config \<Rightarrow> (string \<Rightarrow> nat \<Rightarrow> wire) \<Rightarrow> int \<Rightarrow> int \<Rightarrow> search_state
   \<Rightarrow> rendered \<times> search_state" where
  "performSearchFast query selectedOption cfg net now0 now1 st =
     (if query = [] then (Untouched, st)
      else
        let (cachedResults, cache0) = getCachedResults query selectedOption now0 (searchCache st);
            st0 = st\<lparr>searchCache := cache0\<rparr>
        in case cachedResults of
             Some hit \<Rightarrow> (if hit = [] then NoResultsMessage else ResultCards hit, st0)
           | None \<Rightarrow>
               (let (outcome, st1) =
                      executeParallelSearches (units query) selectedOption cfg net st0
                in case outcome of
                     None \<Rightarrow> (Spinner, st1)
                   | Some (Inl err) \<Rightarrow> (ErrorMessage, st1)
                   | Some (Inr allResults) \<Rightarrow>
                       if allResults = [] then (NoResultsMessage, st1)
                       else (ResultCards allResults,
                             st1\<lparr>searchCache := setCachedResults query selectedOption allResults
                                   now1 (searchCache st1)\<rparr>)))"

text \<open>
  Lines 1427-1482: first the part after the \<^verbatim>\<open>await\<close> of line 1453, run in the state
  the page is in when the promises have settled (no further change when they never do,
  or when the call rejects), then a whole call with nothing in between.
\<close>

definition preloadSearchData_resume ::
  "string \<Rightarrow> string \<Rightarrow> int \<Rightarrow> (string \<times> promise) list \<Rightarrow> search_state \<Rightarrow> search_state" where
  "preloadSearchData_resume query selectedOption now searchPromises st =
     (case executeParallelSearches_settle (cancelled st) searchPromises of
        None \<Rightarrow> st
      | Some (Inl err) \<Rightarrow> st
      | Some (Inr allResults) \<Rightarrow>
          st\<lparr>searchCache := setCachedResults query selectedOption allResults now (searchCache st)\<rparr>)"

definition preloadSearchData ::
  "string \<Rightarrow> string \<Rightarrow> search_config \<Rightarrow> (string \<Rightarrow> nat \<Rightarrow> wire) \<Rightarrow> int \<Rightarrow> search_state
   \<Rightarrow> search_state" where
  "preloadSearchData query selectedOption cfg net now st =
     (let (outcome, st1) = executeParallelSearches (units query) selectedOption cfg net st
      in case outcome of
           None \<Rightarrow> st1
         | Some (Inl err) \<Rightarrow> st1
         | Some (Inr allResults) \<Rightarrow>
             st1\<lparr>searchCache := setCachedResults query selectedOption allResults now
                   (searchCache st1)\<rparr>)"

text \<open>
  Two preloads, the second one starting while the sub-requests of the first are still
  outstanding: the first call runs to its \<^verbatim>\<open>await\<close>, the second call runs to its
  \<^verbatim>\<open>await\<close> (line 80 aborts the controller of the first), then the sub-requests of
  the first settle and the first call resumes, then the second. The result is what the
  first call of \<^verbatim>\<open>executeParallelSearches\<close> resolved to, and the state at the end.
\<close>

definition superseded_preload ::
  "string \<Rightarrow> string \<Rightarrow> string \<Rightarrow> search_config \<Rightarrow> (string \<Rightarrow> nat \<Rightarrow> wire) \<Rightarrow> int \<Rightarrow> int
   \<Rightarrow> search_state \<Rightarrow> (js_error + json list) option \<times> search_state" where
  "superseded_preload q1 q2 selectedOption cfg net now1 now2 st =
     (let (issued1, st1) = executeParallelSearches_issue (units q1) selectedOption cfg net st;
          (issued2, st2) = executeParallelSearches_issue (units q2) selectedOption cfg net st1;
          promises1 = (case issued1 of Inl err \<Rightarrow> [] | Inr ps \<Rightarrow> ps);
          promises2 = (case issued2 of Inl err \<Rightarrow> [] | Inr ps \<Rightarrow> ps);
          resolved1 = executeParallelSearches_settle (cancelled st2) promises1;
          st3 = preloadSearchData_resume q1 selectedOption now1 promises1 st2;
          st4 = preloadSearchData_resume q2 selectedOption now2 promises2 st3
      in (resolved1, st4))"

section \<open>Outcomes of a sub-request, in the words of the specification\<close>

text \<open>
  A sub-request succeeded with \<open>items\<close>: it settled with a 2xx response whose JSON body
  gives the array \<open>items\<close> as \<^verbatim>\<open>data.results || []\<close>. It failed: network error or
  timeout (the promise rejected), a status outside 200-299, or a body that is not JSON
  or is \<^verbatim>\<open>null\<close>.
\<close>

definition succeeded :: "js_error + response \<Rightarrow> json list \<Rightarrow> bool" where
  "succeeded p items =
     (case p of
        Inl err \<Rightarrow> False
      | Inr resp \<Rightarrow>
          ok resp \<and>
          (case json_body resp of
             Parsed d \<Rightarrow>
               (case get_results d of
                  Inl err \<Rightarrow> False
                | Inr v \<Rightarrow> or_empty v = JArr items)
           | _ \<Rightarrow> False))"

definition failed :: "js_error + response \<Rightarrow> bool" where
  "failed p =
     (case p of
        Inl err \<Rightarrow> True
      | Inr resp \<Rightarrow>
          (if ok resp then json_body resp = Unparseable \<or> json_body resp = Parsed JNull
           else True))"

definition yields :: "js_error + response \<Rightarrow> json list \<Rightarrow> bool" where
  "yields p items = (if failed p then items = [] else succeeded p items)"

text \<open>
  The response contract of the search API, as far as the code relies on it: the body of a
  2xx response completes, and what it carries under \<^verbatim>\<open>results\<close>, when it is JSON, is an
  array, or is falsy or missing.
\<close>

fun is_array :: "json \<Rightarrow> bool" where
  "is_array (JArr xs) = True"
| "is_array v = False"

definition conforms :: "js_error + response \<Rightarrow> bool" where
  "conforms p =
     (case p of
        Inl err \<Rightarrow> True
      | Inr resp \<Rightarrow>
          (if ok resp then
             (case json_body resp of
                NeverCompletes \<Rightarrow> False
              | Unparseable \<Rightarrow> True
              | Parsed d \<Rightarrow>
                  (case get_results d of
                     Inl err \<Rightarrow> True
                   | Inr None \<Rightarrow> True
                   | Inr (Some v) \<Rightarrow> if truthy v then is_array v else True))
           else True))"

section \<open>Concrete inputs\<close>

definition every_attempt :: "wire \<Rightarrow> nat \<Rightarrow> wire" where
  "every_attempt w k = w"

definition found :: "json list \<Rightarrow> response" where
  "found items = \<lparr>status = 200, statusText = ''OK'',
     json_body = Parsed (JObj [(''results'', JArr items)])\<rparr>"

definition odd_body :: response where
  "odd_body = \<lparr>status = 200, statusText = ''OK'',
     json_body = Parsed (JObj [(''results'', JStr ''none'')])\<rparr>"

definition stalled_body :: response where
  "stalled_body = \<lparr>status = 200, statusText = ''OK'', json_body = NeverCompletes\<rparr>"

definition unavailable :: response where
  "unavailable = \<lparr>status = 503, statusText = ''Service Unavailable'',
     json_body = Unparseable\<rparr>"

definition item :: "string \<Rightarrow> json" where
  "item title = JObj [(''name'', JStr title)]"

definition site :: search_config where
  "site = \<lparr>siteName = ''shop'', token = ''tok'', collectionsParam = ''%5B%5D'',
     fieldsSearchParam = ''%5B%5D'', fieldsDisplayParam = ''%5B%5D''\<rparr>"

text \<open>
  Servers. \<open>is_index\<close> tells a request to the page index from one to the collection
  index by the path of its URL.
\<close>

definition is_index :: "string \<Rightarrow> bool" where
  "is_index url =
     (take 65 url = ''https://search-server.long-rain-28bb.workers.dev/api/search-index'')"

definition net_found :: "json list \<Rightarrow> string \<Rightarrow> nat \<Rightarrow> wire" where
  "net_found items url k = Arrives 400 (found items)"

definition net_by_query :: "string \<Rightarrow> nat \<Rightarrow> wire" where
  "net_by_query url k =
     (if url = searchIndexUrl ''shoe'' site then Arrives 400 (found [item ''Shoe A''])
      else if url = searchIndexUrl ''shoes'' site then Arrives 400 (found [item ''Shoe B''])
      else Fails 20)"

definition net_page_only :: "json list \<Rightarrow> string \<Rightarrow> nat \<Rightarrow> wire" where
  "net_page_only items url k = (if is_index url then Arrives 400 (found items) else Fails 20)"

definition net_cms_odd :: "json list \<Rightarrow> string \<Rightarrow> nat \<Rightarrow> wire" where
  "net_cms_odd items url k =
     (if is_index url then Arrives 400 (found items) else Arrives 400 odd_body)"

definition net_odd :: "string \<Rightarrow> nat \<Rightarrow> wire" where
  "net_odd url k = Arrives 400 odd_body"

definition net_stalled :: "string \<Rightarrow> nat \<Rightarrow> wire" where
  "net_stalled url k = Arrives 400 stalled_body"

definition net_down :: "string \<Rightarrow> nat \<Rightarrow> wire" where
  "net_down url k = Fails 20"

definition bare_options :: fetch_init where
  "bare_options = \<lparr>headers = [], signal = None, keepalive = False\<rparr>"

section \<open>Properties of the cache\<close>

lemma length_update_le: "length (AList.update k v al) \<le> Suc (length al)"
  by (induction al) auto

lemma length_evictOldest: "al \<noteq> [] \<Longrightarrow> length (evictOldest al) < length al"
proof (cases al)
  case Nil
  assume "al \<noteq> []"
  with Nil show ?thesis by simp
next
  case (Cons p rest)
  obtain k v where p: "p = (k, v)" by (cases p)
  have "length (AList.delete k rest) \<le> length rest"
    by (rule length_delete_le)
  with Cons p show ?thesis
    by (simp add: evictOldest_def firstKey_def)
qed

lemma setCachedResults_bounded:
  assumes "length c \<le> MAX_CACHE_SIZE"
  shows "length (setCachedResults q opt res now c) \<le> MAX_CACHE_SIZE"
proof (cases "length c \<ge> MAX_CACHE_SIZE")
  case True
  then have "c \<noteq> []" by (auto simp: MAX_CACHE_SIZE_def)
  then have "length (evictOldest c) < length c" by (rule length_evictOldest)
  with assms have "Suc (length (evictOldest c)) \<le> MAX_CACHE_SIZE" by simp
  moreover have "length (AList.update (cacheKey q opt) \<lparr>results = res, timestamp = now\<rparr> (evictOldest c))
      \<le> Suc (length (evictOldest c))"
    by (rule length_update_le)
  ultimately show ?thesis using True by (simp add: setCachedResults_def)
next
  case False
  then have "Suc (length c) \<le> MAX_CACHE_SIZE" by simp
  moreover have "length (AList.update (cacheKey q opt) \<lparr>results = res, timestamp = now\<rparr> c)
      \<le> Suc (length c)"
    by (rule length_update_le)
  ultimately show ?thesis using False by (simp add: setCachedResults_def)
qed

lemma stores_bounded:
  "length c \<le> MAX_CACHE_SIZE \<Longrightarrow> length (stores c calls) \<le> MAX_CACHE_SIZE"
proof (induction calls arbitrary: c)
  case Nil
  then show ?case by (simp add: stores_def)
next
  case (Cons call calls)
  obtain q opt res now where call: "call = (q, opt, res, now)" by (cases call)
  have "length (store c call) \<le> MAX_CACHE_SIZE"
    using Cons.prems by (simp add: call setCachedResults_bounded)
  then have "length (stores (store c call) calls) \<le> MAX_CACHE_SIZE"
    by (rule Cons.IH)
  then show ?case by (simp add: stores_def)
qed

text \<open>
  C4. Capacity: whatever sequence of store calls is run from the empty cache, the cache
  holds at most \<open>MAX_CACHE_SIZE\<close> entries afterwards. Every prefix of a sequence of
  calls is itself such a sequence, so the bound holds after each call; and the capacity
  is the constant 200 of line 4.
\<close>

theorem capacity_invariant:
  "length (stores [] calls) \<le> MAX_CACHE_SIZE \<and> MAX_CACHE_SIZE = 200"
proof
  show "length (stores [] calls) \<le> MAX_CACHE_SIZE"
    by (rule stores_bounded) simp
  show "MAX_CACHE_SIZE = 200"
    by (simp add: MAX_CACHE_SIZE_def)
qed

subsection \<open>Insertion order and eviction\<close>

lemma update_fresh: "k \<notin> fst ` set al \<Longrightarrow> AList.update k v al = al @ [(k, v)]"
  by (induction al) auto

lemma lower_a: "lower_char CHR ''a'' = CHR ''a''"
  by code_simp

lemma callKey_sample:
  "map callKey (sample_calls n) = map (\<lambda>i. replicate (Suc i) CHR ''a'' @ ''_Pages'') [0..<n]"
  by (simp add: sample_calls_def cacheKey_def toLowerCase_def lower_a)

lemma distinct_sample: "distinct (map callKey (sample_calls n))"
proof -
  have "inj_on (\<lambda>i. replicate (Suc i) CHR ''a'' @ ''_Pages'') (set [0..<n])"
    by (rule inj_onI) (auto dest: arg_cong[where f = length])
  then show ?thesis
    by (simp only: callKey_sample distinct_map) simp
qed

lemma sample_hd: "0 < n \<Longrightarrow> hd (sample_calls n) = (''a'', ''Pages'', [], 0)"
  by (simp add: sample_calls_def hd_map)

lemma sample_nth: "i < n \<Longrightarrow> (replicate (Suc i) CHR ''a'', ''Pages'', [], int i) \<in> set (sample_calls n)"
  by (simp add: sample_calls_def)

lemma sample_tl:
  assumes "0 < i" and "i < n"
  shows "(replicate (Suc i) CHR ''a'', ''Pages'', [], int i) \<in> set (tl (sample_calls n))"
proof -
  define f :: "nat \<Rightarrow> store_call"
    where "f = (\<lambda>i. (replicate (Suc i) CHR ''a'', ''Pages'', [], int i))"
  from assms have "i \<in> set [Suc 0..<n]" by simp
  then have "f i \<in> f ` set [Suc 0..<n]" by (rule imageI)
  then have "f i \<in> set (map f [Suc 0..<n])" by (simp only: set_map)
  moreover have "tl (sample_calls n) = map f [Suc 0..<n]"
    by (simp only: sample_calls_def f_def map_tl [symmetric] tl_upt)
  ultimately have "f i \<in> set (tl (sample_calls n))" by simp
  then show ?thesis by (simp only: f_def)
qed

lemma length_sample: "length (sample_calls n) = n"
  by (simp add: sample_calls_def)

lemma keys_stored: "map fst (map stored calls) = map callKey calls"
  by (simp add: stored_def)

lemma keyset_stored: "fst ` set (map stored calls) = callKey ` set calls"
  by (simp add: stored_def image_image)

lemma keyimage_stored: "fst ` stored ` S = callKey ` S"
  by (simp add: stored_def image_image)

lemma store_fresh:
  assumes "callKey call \<notin> fst ` set c" and "length c < MAX_CACHE_SIZE"
  shows "store c call = c @ [stored call]"
proof -
  obtain q opt res now where call: "call = (q, opt, res, now)" by (cases call)
  from assms(1) have "cacheKey q opt \<notin> fst ` set c" by (simp add: call)
  then have "AList.update (cacheKey q opt) \<lparr>results = res, timestamp = now\<rparr> c
      = c @ [(cacheKey q opt, \<lparr>results = res, timestamp = now\<rparr>)]"
    by (rule update_fresh)
  with assms(2) show ?thesis
    by (simp add: call setCachedResults_def stored_def)
qed

lemma stores_fresh:
  "distinct (map fst c @ map callKey calls) \<Longrightarrow> length c + length calls \<le> MAX_CACHE_SIZE
   \<Longrightarrow> stores c calls = c @ map stored calls"
proof (induction calls arbitrary: c)
  case Nil
  then show ?case by (simp add: stores_def)
next
  case (Cons call calls)
  have fresh: "callKey call \<notin> fst ` set c" using Cons.prems(1) by auto
  have "length c < MAX_CACHE_SIZE" using Cons.prems(2) by simp
  with fresh have step: "store c call = c @ [stored call]" by (rule store_fresh)
  have "distinct (map fst (c @ [stored call]) @ map callKey calls)"
    using Cons.prems(1) by (auto simp: stored_def)
  moreover have "length (c @ [stored call]) + length calls \<le> MAX_CACHE_SIZE"
    using Cons.prems(2) by simp
  ultimately have "stores (c @ [stored call]) calls = (c @ [stored call]) @ map stored calls"
    by (rule Cons.IH)
  with step show ?case by (simp add: stores_def)
qed

lemma store_full:
  assumes "length (first # rest) = MAX_CACHE_SIZE"
    and "distinct (map callKey (first # rest @ [call]))"
  shows "store (map stored (first # rest)) call = map stored (rest @ [call])"
proof -
  obtain q opt res now where call: "call = (q, opt, res, now)" by (cases call)
  have k1: "callKey first \<notin> fst ` set (map stored rest)"
    using assms(2) by (simp add: keyimage_stored)
  have "evictOldest (map stored (first # rest)) = AList.delete (callKey first) (map stored rest)"
    by (simp add: evictOldest_def firstKey_def stored_def)
  also have "\<dots> = map stored rest" using k1 by (rule delete_id)
  finally have ev: "evictOldest (map stored (first # rest)) = map stored rest" .
  have "callKey call \<notin> fst ` set (map stored rest)"
    using assms(2) by (simp add: keyimage_stored)
  then have "AList.update (callKey call) (callEntry call) (map stored rest)
      = map stored rest @ [(callKey call, callEntry call)]"
    by (rule update_fresh)
  then show ?thesis
    using assms(1) ev by (simp add: call setCachedResults_def stored_def)
qed

lemma stores_overflow:
  assumes len: "length calls = MAX_CACHE_SIZE + 1"
    and dist: "distinct (map callKey calls)"
  shows "stores [] calls = map stored (tl calls)"
proof -
  from len have "calls \<noteq> []" by auto
  then obtain init final where calls: "calls = init @ [final]"
    by (cases calls rule: rev_cases) auto
  from len calls have linit: "length init = MAX_CACHE_SIZE" by simp
  then have "init \<noteq> []" by (auto simp: MAX_CACHE_SIZE_def)
  then obtain first rest where init: "init = first # rest" by (cases init) auto
  have "stores [] init = [] @ map stored init"
    using dist linit by (intro stores_fresh) (simp_all add: calls)
  then have "stores [] calls = store (map stored init) final"
    by (simp add: calls stores_def)
  also have "\<dots> = map stored (rest @ [final])"
    unfolding init using linit dist by (intro store_full) (simp_all add: calls init)
  finally show ?thesis by (simp add: calls init)
qed

text \<open>
  C5. FIFO eviction: when \<open>MAX_CACHE_SIZE + 1\<close> store calls with pairwise different
  keys are run in order from the empty cache, the key of the first call is absent
  afterwards, and the key of every later call is present, with the entry that call stored.
\<close>

theorem fifo_eviction:
  assumes "length calls = MAX_CACHE_SIZE + 1"
    and "distinct (map callKey calls)"
  shows "map_of (stores [] calls) (callKey (hd calls)) = None
    \<and> (\<forall>call \<in> set (tl calls). map_of (stores [] calls) (callKey call) = Some (callEntry call))"
proof -
  have eq: "stores [] calls = map stored (tl calls)"
    using assms by (rule stores_overflow)
  from assms(1) have "calls \<noteq> []" by auto
  then have split: "calls = hd calls # tl calls" by simp
  have "distinct (map callKey (hd calls # tl calls))" using assms(2) split by simp
  then have absent: "callKey (hd calls) \<notin> callKey ` set (tl calls)"
    and dtl: "distinct (map callKey (tl calls))" by simp_all
  have "map_of (map stored (tl calls)) (callKey (hd calls)) = None"
    using absent by (simp only: map_of_eq_None_iff keyset_stored) simp
  moreover have "map_of (map stored (tl calls)) (callKey call) = Some (callEntry call)"
    if "call \<in> set (tl calls)" for call
  proof (rule map_of_is_SomeI)
    show "distinct (map fst (map stored (tl calls)))" using dtl by (simp only: keys_stored)
    show "(callKey call, callEntry call) \<in> set (map stored (tl calls))"
      using that by (auto simp: stored_def)
  qed
  ultimately show ?thesis using eq by simp
qed

text \<open>
  The theorem at 201 calls whose queries are \<open>a\<close>, \<open>aa\<close>, \<open>aaa\<close>, ... under the option
  \<open>Pages\<close>.
\<close>

theorem fifo_eviction_witness:
  "length (sample_calls 201) = MAX_CACHE_SIZE + 1
   \<and> distinct (map callKey (sample_calls 201))
   \<and> hd (sample_calls 201) = (''a'', ''Pages'', [], 0)
   \<and> map_of (stores [] (sample_calls 201)) (cacheKey ''a'' ''Pages'') = None
   \<and> map_of (stores [] (sample_calls 201)) (cacheKey ''aa'' ''Pages'')
       = Some \<lparr>results = [], timestamp = 1\<rparr>"
proof -
  have len: "length (sample_calls 201) = MAX_CACHE_SIZE + 1"
    by (simp add: length_sample MAX_CACHE_SIZE_def)
  have dist: "distinct (map callKey (sample_calls 201))"
    by (rule distinct_sample)
  have first: "hd (sample_calls 201) = (''a'', ''Pages'', [], 0)"
    by (rule sample_hd) simp
  have "(replicate (Suc 1) CHR ''a'', ''Pages'', [], int 1) \<in> set (tl (sample_calls 201))"
    by (rule sample_tl) simp_all
  then have second: "(''aa'', ''Pages'', [], 1) \<in> set (tl (sample_calls 201))"
    by (simp add: numeral_2_eq_2)
  from fifo_eviction [OF len dist]
  have "map_of (stores [] (sample_calls 201)) (callKey (hd (sample_calls 201))) = None"
    and "map_of (stores [] (sample_calls 201)) (callKey (''aa'', ''Pages'', [], 1))
      = Some (callEntry (''aa'', ''Pages'', [], 1))"
    using second by blast+
  with len dist first show ?thesis by simp
qed

subsection \<open>What one store call changes\<close>

lemma map_of_setCachedResults:
  "map_of (setCachedResults q opt res now c) k =
     (if k = cacheKey q opt then Some \<lparr>results = res, timestamp = now\<rparr>
      else if MAX_CACHE_SIZE \<le> length c \<and> firstKey c = Some k then None
      else map_of c k)"
proof (cases c)
  case Nil
  then show ?thesis
    by (simp add: setCachedResults_def evictOldest_def firstKey_def update_conv')
next
  case (Cons p rest)
  obtain k0 v0 where p: "p = (k0, v0)" by (cases p)
  have ev: "map_of (evictOldest c) = (map_of c)(k0 := None)"
    by (simp add: Cons p evictOldest_def firstKey_def delete_conv' del: delete_simps)
  have fk: "firstKey c = Some k0" by (simp add: Cons p firstKey_def)
  show ?thesis
  proof (cases "MAX_CACHE_SIZE \<le> length c")
    case True
    then have "map_of (setCachedResults q opt res now c)
        = ((map_of c)(k0 := None))(cacheKey q opt \<mapsto> \<lparr>results = res, timestamp = now\<rparr>)"
      by (simp add: setCachedResults_def update_conv' ev)
    with True fk show ?thesis by auto
  next
    case False
    then have "map_of (setCachedResults q opt res now c)
        = (map_of c)(cacheKey q opt \<mapsto> \<lparr>results = res, timestamp = now\<rparr>)"
      by (simp add: setCachedResults_def update_conv')
    with False show ?thesis by auto
  qed
qed

text \<open>
  C6, as the code has it. A store call sets the entry of its own key. It removes the entry
  of the oldest-inserted key exactly when the cache already holds \<open>MAX_CACHE_SIZE\<close>
  entries as the call starts, whether or not the key being stored is already present
  (line 22 looks at the size only). The entry of every other key is left as it was. So a
  store removes at most one other entry, and a store under a key already present leaves
  all other entries unchanged as long as the cache is below capacity.
\<close>

theorem store_frame:
  "map_of (setCachedResults q opt res now c) k =
     (if k = cacheKey q opt then Some \<lparr>results = res, timestamp = now\<rparr>
      else if MAX_CACHE_SIZE \<le> length c \<and> firstKey c = Some k then None
      else map_of c k)"
  by (rule map_of_setCachedResults)

lemma full_cache_eq: "full_cache = map stored (sample_calls 200)"
proof -
  have "stores [] (sample_calls 200) = [] @ map stored (sample_calls 200)"
    by (rule stores_fresh) (simp_all add: distinct_sample length_sample MAX_CACHE_SIZE_def)
  then show ?thesis by (simp add: full_cache_def)
qed

lemma key_a: "cacheKey ''a'' ''Pages'' = ''a_Pages''"
  by (simp add: cacheKey_def toLowerCase_def lower_a)

lemma key_aa: "cacheKey ''aa'' ''Pages'' = ''aa_Pages''"
  by (simp add: cacheKey_def toLowerCase_def lower_a)

lemma firstKey_stored: "calls \<noteq> [] \<Longrightarrow> firstKey (map stored calls) = Some (callKey (hd calls))"
  by (cases calls) (simp_all add: firstKey_def stored_def)

lemma map_of_stored:
  assumes "distinct (map callKey calls)" and "call \<in> set calls"
  shows "map_of (map stored calls) (callKey call) = Some (callEntry call)"
proof (rule map_of_is_SomeI)
  show "distinct (map fst (map stored calls))" using assms(1) by (simp only: keys_stored)
  show "(callKey call, callEntry call) \<in> set (map stored calls)"
    using assms(2) by (auto simp: stored_def)
qed

text \<open>
  C6 as claimed fails at capacity. The cache holds 200 entries, among them the keys of the
  queries \<open>a\<close> (the oldest) and \<open>aa\<close>. Storing again under the key of \<open>aa\<close>, which is
  present, removes the entry of \<open>a\<close>.
\<close>

theorem store_frame_counterexample:
  "length full_cache = MAX_CACHE_SIZE
   \<and> map_of full_cache (cacheKey ''aa'' ''Pages'') = Some \<lparr>results = [], timestamp = 1\<rparr>
   \<and> map_of full_cache (cacheKey ''a'' ''Pages'') = Some \<lparr>results = [], timestamp = 0\<rparr>
   \<and> cacheKey ''a'' ''Pages'' \<noteq> cacheKey ''aa'' ''Pages''
   \<and> map_of (setCachedResults ''aa'' ''Pages'' [] 2 full_cache) (cacheKey ''a'' ''Pages'') = None"
proof -
  have len: "length full_cache = MAX_CACHE_SIZE"
    by (simp add: full_cache_eq length_sample MAX_CACHE_SIZE_def)
  have ne: "sample_calls 200 \<noteq> []"
    using length_sample [of 200] by auto
  have "firstKey full_cache = Some (callKey (hd (sample_calls 200)))"
    unfolding full_cache_eq using ne by (rule firstKey_stored)
  then have first: "firstKey full_cache = Some (cacheKey ''a'' ''Pages'')"
    by (simp add: sample_hd)
  have neq: "cacheKey ''a'' ''Pages'' \<noteq> cacheKey ''aa'' ''Pages''"
    by (simp add: key_a key_aa)
  have gone: "map_of (setCachedResults ''aa'' ''Pages'' [] 2 full_cache) (cacheKey ''a'' ''Pages'') = None"
    using len first neq by (simp add: map_of_setCachedResults)
  have "(replicate (Suc 1) CHR ''a'', ''Pages'', [], int 1) \<in> set (sample_calls 200)"
    by (rule sample_nth) simp
  then have "(''aa'', ''Pages'', [], 1) \<in> set (sample_calls 200)"
    by (simp add: numeral_2_eq_2)
  with distinct_sample
  have "map_of (map stored (sample_calls 200)) (callKey (''aa'', ''Pages'', [], 1))
      = Some (callEntry (''aa'', ''Pages'', [], 1))"
    by (rule map_of_stored)
  then have second: "map_of full_cache (cacheKey ''aa'' ''Pages'') = Some \<lparr>results = [], timestamp = 1\<rparr>"
    by (simp add: full_cache_eq)
  have "(replicate (Suc 0) CHR ''a'', ''Pages'', [], int 0) \<in> set (sample_calls 200)"
    by (rule sample_nth) simp
  then have "(''a'', ''Pages'', [], 0) \<in> set (sample_calls 200)"
    by simp
  with distinct_sample
  have "map_of (map stored (sample_calls 200)) (callKey (''a'', ''Pages'', [], 0))
      = Some (callEntry (''a'', ''Pages'', [], 0))"
    by (rule map_of_stored)
  then have oldest: "map_of full_cache (cacheKey ''a'' ''Pages'') = Some \<lparr>results = [], timestamp = 0\<rparr>"
    by (simp add: full_cache_eq)
  from len second oldest neq gone show ?thesis by blast
qed

subsection \<open>Expiry\<close>

text \<open>
  C7. For an entry \<open>e\<close> held under the key of \<open>(q, opt)\<close>: a lookup at time \<open>t\<close> returns
  its results when \<open>t - timestamp e < CACHE_DURATION\<close> and returns the miss value when
  \<open>t - timestamp e \<ge> CACHE_DURATION\<close>; in both cases the cache after the lookup is the
  cache before it, so the entry, expired or not, is still stored. The duration is 15
  minutes in milliseconds.
\<close>

theorem ttl_lookup:
  assumes "map_of c (cacheKey q opt) = Some e"
  shows "(t - timestamp e < CACHE_DURATION \<longrightarrow> getCachedResults q opt t c = (Some (results e), c))
    \<and> (t - timestamp e \<ge> CACHE_DURATION \<longrightarrow> getCachedResults q opt t c = (None, c))
    \<and> map_of (snd (getCachedResults q opt t c)) (cacheKey q opt) = Some e
    \<and> CACHE_DURATION = 900000"
proof -
  have hit: "getCachedResults q opt t c = (Some (results e), c)" if "t - timestamp e < CACHE_DURATION"
    using assms that by (simp add: getCachedResults_def)
  have miss: "getCachedResults q opt t c = (None, c)" if "t - timestamp e \<ge> CACHE_DURATION"
    using assms that by (simp add: getCachedResults_def)
  have "snd (getCachedResults q opt t c) = c"
    by (simp add: getCachedResults_def split: option.split)
  then have kept: "map_of (snd (getCachedResults q opt t c)) (cacheKey q opt) = Some e"
    using assms by simp
  have "CACHE_DURATION = 900000" by (simp add: CACHE_DURATION_def)
  with hit miss kept show ?thesis by blast
qed

text \<open>
  The theorem for an entry stored at time 1000: returned at 900999, one millisecond
  before it expires, and a miss at 901000.
\<close>

theorem ttl_lookup_witness:
  "map_of (setCachedResults ''cat'' ''Pages'' [JNull] 1000 []) (cacheKey ''cat'' ''Pages'')
     = Some \<lparr>results = [JNull], timestamp = 1000\<rparr>
   \<and> getCachedResults ''cat'' ''Pages'' 900999 (setCachedResults ''cat'' ''Pages'' [JNull] 1000 [])
     = (Some [JNull], setCachedResults ''cat'' ''Pages'' [JNull] 1000 [])
   \<and> getCachedResults ''cat'' ''Pages'' 901000 (setCachedResults ''cat'' ''Pages'' [JNull] 1000 [])
     = (None, setCachedResults ''cat'' ''Pages'' [JNull] 1000 [])"
proof -
  let ?c = "setCachedResults ''cat'' ''Pages'' [JNull] 1000 []"
  let ?e = "\<lparr>results = [JNull], timestamp = 1000\<rparr>"
  have h: "map_of ?c (cacheKey ''cat'' ''Pages'') = Some ?e"
    by (simp add: map_of_setCachedResults)
  have fresh: "(900999::int) - timestamp ?e < CACHE_DURATION"
    by (simp add: CACHE_DURATION_def)
  have stale: "(901000::int) - timestamp ?e \<ge> CACHE_DURATION"
    by (simp add: CACHE_DURATION_def)
  have "getCachedResults ''cat'' ''Pages'' 900999 ?c = (Some (results ?e), ?c)"
    using ttl_lookup [OF h, of 900999] fresh by blast
  moreover have "getCachedResults ''cat'' ''Pages'' 901000 ?c = (None, ?c)"
    using ttl_lookup [OF h, of 901000] stale by blast
  ultimately show ?thesis using h by simp
qed

subsection \<open>Cache keys\<close>

lemma takeWhile_until: "x \<notin> set xs \<Longrightarrow> takeWhile (\<lambda>c. c \<noteq> x) (xs @ x # ys) = xs"
  by (induction xs) auto

lemma key_separator: "CHR ''_'' \<notin> set o1 \<Longrightarrow> CHR ''_'' \<notin> set o2 \<Longrightarrow> a @ ''_'' @ o1 = b @ ''_'' @ o2 \<Longrightarrow> a = b \<and> o1 = o2"
proof -
  assume h: "CHR ''_'' \<notin> set o1" "CHR ''_'' \<notin> set o2" "a @ ''_'' @ o1 = b @ ''_'' @ o2"
  from h(3) have "rev (a @ ''_'' @ o1) = rev (b @ ''_'' @ o2)" by simp
  then have e: "rev o1 @ CHR ''_'' # rev a = rev o2 @ CHR ''_'' # rev b" by simp
  have "takeWhile (\<lambda>c. c \<noteq> CHR ''_'') (rev o1 @ CHR ''_'' # rev a) = rev o1"
    using h(1) by (simp add: takeWhile_until)
  moreover have "takeWhile (\<lambda>c. c \<noteq> CHR ''_'') (rev o2 @ CHR ''_'' # rev b) = rev o2"
    using h(2) by (simp add: takeWhile_until)
  ultimately have "rev o1 = rev o2" using e by simp
  then have "o1 = o2" by simp
  with h(3) show ?thesis by simp
qed

text \<open>
  C10. For filter options from \<open>Pages\<close>, \<open>Collection\<close>, \<open>Both\<close>, two searches get the
  same cache key exactly when their lower-cased queries are equal and their options are
  equal. In particular \<open>Cat\<close> and \<open>cat\<close> under \<open>Pages\<close> have one key, and a lookup of
  either gives the same answer.
\<close>

theorem cache_key_identifies:
  assumes "o1 \<in> filterOptions" and "o2 \<in> filterOptions"
  shows "(cacheKey q1 o1 = cacheKey q2 o2 \<longleftrightarrow> toLowerCase q1 = toLowerCase q2 \<and> o1 = o2)
    \<and> cacheKey ''Cat'' ''Pages'' = cacheKey ''cat'' ''Pages''
    \<and> getCachedResults ''Cat'' ''Pages'' t c = getCachedResults ''cat'' ''Pages'' t c"
proof -
  have u1: "CHR ''_'' \<notin> set o1" using assms(1) by (auto simp: filterOptions_def)
  have u2: "CHR ''_'' \<notin> set o2" using assms(2) by (auto simp: filterOptions_def)
  have iff: "cacheKey q1 o1 = cacheKey q2 o2 \<longleftrightarrow> toLowerCase q1 = toLowerCase q2 \<and> o1 = o2"
  proof
    assume "cacheKey q1 o1 = cacheKey q2 o2"
    then have "toLowerCase q1 @ ''_'' @ o1 = toLowerCase q2 @ ''_'' @ o2"
      by (simp add: cacheKey_def)
    with u1 u2 show "toLowerCase q1 = toLowerCase q2 \<and> o1 = o2" by (rule key_separator)
  next
    assume "toLowerCase q1 = toLowerCase q2 \<and> o1 = o2"
    then show "cacheKey q1 o1 = cacheKey q2 o2" by (simp add: cacheKey_def)
  qed
  have low: "toLowerCase ''Cat'' = toLowerCase ''cat''" by code_simp
  then have same: "cacheKey ''Cat'' ''Pages'' = cacheKey ''cat'' ''Pages''"
    by (simp add: cacheKey_def)
  then have "getCachedResults ''Cat'' ''Pages'' t c = getCachedResults ''cat'' ''Pages'' t c"
    by (simp add: getCachedResults_def)
  with iff same show ?thesis by simp
qed

text \<open>
  The theorem at \<open>Cat\<close>, \<open>cat\<close>, \<open>cab\<close> and the options \<open>Pages\<close> and \<open>Both\<close>.
\<close>

theorem cache_key_identifies_witness:
  "''Pages'' \<in> filterOptions \<and> ''Both'' \<in> filterOptions
   \<and> cacheKey ''Cat'' ''Pages'' = cacheKey ''cat'' ''Pages''
   \<and> cacheKey ''Cat'' ''Pages'' \<noteq> cacheKey ''cat'' ''Both''
   \<and> cacheKey ''Cat'' ''Pages'' \<noteq> cacheKey ''cab'' ''Pages''"
proof -
  have p: "''Pages'' \<in> filterOptions" and b: "''Both'' \<in> filterOptions"
    by (simp_all add: filterOptions_def)
  have l1: "toLowerCase ''Cat'' = ''cat''" and l2: "toLowerCase ''cab'' = ''cab''"
    and l3: "toLowerCase ''cat'' = ''cat''"
    by code_simp+
  have "cacheKey ''Cat'' ''Pages'' = cacheKey ''cat'' ''Pages''"
    using cache_key_identifies [of "''Pages''" "''Pages''" "''Cat''" "''cat''" 0 "[]", OF p p] by blast
  moreover have "cacheKey ''Cat'' ''Pages'' \<noteq> cacheKey ''cat'' ''Both''"
  proof -
    have "''Pages'' \<noteq> ''Both''" by simp
    then show ?thesis
      using cache_key_identifies [of "''Pages''" "''Both''" "''Cat''" "''cat''" 0 "[]", OF p b]
      by blast
  qed
  moreover have "cacheKey ''Cat'' ''Pages'' \<noteq> cacheKey ''cab'' ''Pages''"
  proof -
    have "toLowerCase ''Cat'' \<noteq> toLowerCase ''cab''" by (simp add: l1 l2)
    then show ?thesis
      using cache_key_identifies [of "''Pages''" "''Pages''" "''Cat''" "''cab''" 0 "[]", OF p p]
      by blast
  qed
  ultimately show ?thesis using p b by blast
qed

section \<open>Properties of the requests\<close>

subsection \<open>One sub-request\<close>

lemma name_AbortError: "name AbortError = ''AbortError''"
  by (simp add: AbortError_def)

lemma name_FetchFailed: "name FetchFailed \<noteq> ''AbortError''"
  by (simp add: FetchFailed_def)

lemma fetch_requestInit:
  "fetch cs w (requestInit options) =
     (if 10000 \<le> delay w then Inl AbortError
      else case w of Arrives d r \<Rightarrow> Inr r | Fails d \<Rightarrow> Inl FetchFailed)"
  by (simp add: fetch_def requestInit_def aborted_def)

lemma optimizedFetch_last:
  "optimizedFetch cs wires options 0 = ([FetchCall], fetch cs (wires 0) (requestInit options))"
  by (subst optimizedFetch.simps) (simp split: sum.split)

lemma optimizedFetch_once:
  "optimizedFetch cs wires options (Suc 0) =
     (case wires 0 of
        Arrives d r \<Rightarrow> ([FetchCall], if 10000 \<le> d then Inl AbortError else Inr r)
      | Fails d \<Rightarrow>
          if 10000 \<le> d then ([FetchCall], Inl AbortError)
          else ([FetchCall, Backoff 300, FetchCall], fetch cs (wires (Suc 0)) (requestInit options)))"
  by (subst optimizedFetch.simps)
     (simp add: fetch_requestInit optimizedFetch_last name_AbortError name_FetchFailed
        split: wire.split)

lemma optimizedFetch_independent:
  "optimizedFetch cs wires options (Suc 0) = optimizedFetch cs' wires options' (Suc 0)"
  by (simp add: optimizedFetch_once fetch_requestInit split: wire.split)

lemma subrequest_independent:
  "subrequest tok net n url cs = subrequest tok' net n' url cs'"
  unfolding subrequest_def One_nat_def by (rule optimizedFetch_independent)

lemma subrequest_arrives:
  assumes "net url 0 = Arrives d r" and "d < 10000"
  shows "subrequest tok net n url cs = ([FetchCall], Inr r)"
  using assms by (simp add: subrequest_def optimizedFetch_once)

lemma subrequest_fails_twice:
  assumes "net url 0 = Fails d" and "d < 10000" and "net url (Suc 0) = Fails d'" and "d' < 10000"
  shows "subrequest tok net n url cs = ([FetchCall, Backoff 300, FetchCall], Inl FetchFailed)"
  using assms by (simp add: subrequest_def optimizedFetch_once fetch_requestInit)

subsection \<open>Settling and merging\<close>

lemma settle_one_failed:
  "failed p \<Longrightarrow> \<exists>v. settle_one t p = Some v \<and> \<not> success v"
  by (auto simp: failed_def settle_one_def split: sum.splits if_splits)

lemma settle_one_succeeded:
  "succeeded p items \<Longrightarrow>
   settle_one t p = Some \<lparr>type = t, data = JArr items, success = True, error = None\<rparr>"
  by (auto simp: succeeded_def settle_one_def split: sum.splits body_outcome.splits)

lemma allSettled_Some:
  "allSettled (Some v # ps) = map_option ((#) (Fulfilled v)) (allSettled ps)"
  by simp

lemma settle_step:
  assumes "yields p items"
  shows "map_option (\<lambda>rs. merge rs acc) (allSettled (settle_one t p # ps))
     = map_option (\<lambda>rs. merge rs (acc @ map (tag t) items)) (allSettled ps)"
proof (cases "failed p")
  case True
  then obtain v where v: "settle_one t p = Some v" "\<not> success v"
    using settle_one_failed by blast
  from True assms have "items = []" by (simp add: yields_def)
  with v show ?thesis by (cases "allSettled ps") simp_all
next
  case False
  with assms have "succeeded p items" by (simp add: yields_def)
  then have "settle_one t p = Some \<lparr>type = t, data = JArr items, success = True, error = None\<rparr>"
    by (rule settle_one_succeeded)
  then show ?thesis by (cases "allSettled ps") (simp_all add: map_items_def)
qed

lemma conforms_yields:
  assumes "conforms p"
  shows "\<exists>items. yields p items"
proof (cases "failed p")
  case True
  then show ?thesis by (simp add: yields_def)
next
  case False
  then obtain resp where p: "p = Inr resp" and okr: "ok resp"
    and nu: "json_body resp \<noteq> Unparseable" and nn: "json_body resp \<noteq> Parsed JNull"
    by (auto simp: failed_def split: sum.splits if_splits)
  from assms p okr have "json_body resp \<noteq> NeverCompletes"
    by (auto simp: conforms_def)
  with nu obtain d where d: "json_body resp = Parsed d" by (cases "json_body resp") auto
  with nn have "d \<noteq> JNull" by simp
  then obtain v where v: "get_results d = Inr v" by (cases d) auto
  have "\<exists>items. or_empty v = JArr items"
  proof (cases v)
    case None
    then show ?thesis by (simp add: or_empty_def)
  next
    case (Some x)
    show ?thesis
    proof (cases "truthy x")
      case True
      with assms p okr d v Some have "is_array x" by (simp add: conforms_def)
      then obtain xs where "x = JArr xs" by (cases x) auto
      with Some show ?thesis by (simp add: or_empty_def)
    next
      case False
      with Some show ?thesis by (simp add: or_empty_def)
    qed
  qed
  then obtain items where "or_empty v = JArr items" ..
  with p okr d v have "succeeded p items" by (simp add: succeeded_def)
  with False show ?thesis by (auto simp: yields_def)
qed

lemma settle_all_yield:
  "(\<And>t. t \<in> set ts \<Longrightarrow> \<exists>items. yields (P t) items) \<Longrightarrow>
   \<exists>res. map_option (\<lambda>rs. merge rs acc) (allSettled (map (\<lambda>t. settle_one t (P t)) ts))
     = Some (Inr res)"
proof (induction ts arbitrary: acc)
  case Nil
  then show ?case by simp
next
  case (Cons t ts)
  from Cons.prems [of t] obtain items where y: "yields (P t) items" by auto
  have "\<exists>res. map_option (\<lambda>rs. merge rs (acc @ map (tag t) items))
      (allSettled (map (\<lambda>t. settle_one t (P t)) ts)) = Some (Inr res)"
    using Cons.prems by (intro Cons.IH) simp
  then show ?case by (simp only: list.map settle_step [OF y])
qed

lemma settle_all_failed:
  "(\<And>t. t \<in> set ts \<Longrightarrow> failed (P t)) \<Longrightarrow>
   map_option (\<lambda>rs. merge rs acc) (allSettled (map (\<lambda>t. settle_one t (P t)) ts))
     = Some (Inr acc)"
proof (induction ts arbitrary: acc)
  case Nil
  then show ?case by simp
next
  case (Cons t ts)
  have "failed (P t)" using Cons.prems [of t] by simp
  then have y: "yields (P t) []" by (simp add: yields_def)
  have "map_option (\<lambda>rs. merge rs acc) (allSettled (map (\<lambda>t. settle_one t (P t)) ts))
      = Some (Inr acc)"
    using Cons.prems by (intro Cons.IH) simp
  then show ?case by (simp only: list.map settle_step [OF y]) simp
qed

subsection \<open>A whole call\<close>

lemma searchUrl_page: "searchUrl ''page'' q cfg = searchIndexUrl q cfg"
  by (simp add: searchUrl_def)

lemma searchUrl_cms: "searchUrl ''cms'' q cfg = searchCmsUrl q cfg"
  by (simp add: searchUrl_def)

lemma executeParallelSearches_merge:
  assumes "declared selectedOption \<noteq> [] \<Longrightarrow> encodeURIComponent query = Inr q"
  shows "fst (executeParallelSearches query selectedOption cfg net st) =
     map_option (\<lambda>rs. merge rs [])
       (allSettled (map (\<lambda>t. settle_one t (snd (subrequest (token cfg) net n (searchUrl t q cfg) cs)))
          (declared selectedOption)))"
proof -
  define out where "out url = snd (subrequest (token cfg) net n url cs)" for url
  have ind: "snd (subrequest (token cfg) net m url cs') = out url" for m url cs'
    unfolding out_def by (rule arg_cong [OF subrequest_independent])
  have "fst (executeParallelSearches query selectedOption cfg net st) =
      map_option (\<lambda>rs. merge rs [])
        (allSettled (map (\<lambda>t. settle_one t (out (searchUrl t q cfg))) (declared selectedOption)))"
  proof (cases "declared selectedOption = []")
    case True
    then show ?thesis
      by (auto simp: declared_def executeParallelSearches_def executeParallelSearches_issue_def
          executeParallelSearches_settle_def Let_def split: if_splits)
  next
    case False
    then have enc: "encodeURIComponent query = Inr q" by (rule assms)
    show ?thesis
      by (simp add: declared_def executeParallelSearches_def executeParallelSearches_issue_def
          executeParallelSearches_settle_def Let_def enc ind searchUrl_page searchUrl_cms)
  qed
  then show ?thesis by (simp only: out_def)
qed

lemma executeParallelSearches_throws:
  assumes "declared selectedOption \<noteq> []" and "encodeURIComponent query = Inl err"
  shows "fst (executeParallelSearches query selectedOption cfg net st) = Some (Inl err)"
  using assms
  by (auto simp: declared_def executeParallelSearches_def executeParallelSearches_issue_def
      Let_def split: if_splits)

lemma enc_shoe: "encodeURIComponent (units ''shoe'') = Inr ''shoe''"
  by code_simp

lemma enc_shoes: "encodeURIComponent (units ''shoes'') = Inr ''shoes''"
  by code_simp

lemma enc_zzz: "encodeURIComponent (units ''zzz'') = Inr ''zzz''"
  by code_simp

lemma enc_lone_surrogate: "encodeURIComponent [0xD800] = Inl URIError"
  by code_simp

lemma is_index_page: "is_index (searchIndexUrl q cfg)"
  by (simp add: is_index_def searchIndexUrl_def)

lemma is_index_cms: "\<not> is_index (searchCmsUrl q cfg)"
  by (simp add: is_index_def searchCmsUrl_def)

lemma ok_found: "ok (found items)"
  by (simp add: ok_def found_def)

lemma succeeded_found: "succeeded (Inr (found items)) items"
  by (simp add: succeeded_def ok_found) (simp add: found_def or_empty_def)

lemma not_failed_found: "\<not> failed (Inr (found items))"
  by (simp add: failed_def ok_found) (simp add: found_def)

lemma yields_found: "yields (Inr (found items)) items"
  by (simp add: yields_def succeeded_found not_failed_found)

lemma failed_rejected: "failed (Inl err)"
  by (simp add: failed_def)

lemma tag_item: "tag t (item title) = JObj [(''name'', JStr title), (''_type'', JStr t)]"
  by (simp add: tag_def item_def)

lemma settle_found:
  "settle_one t (Inr (found items))
   = Some \<lparr>type = t, data = JArr items, success = True, error = None\<rparr>"
  by (rule settle_one_succeeded) (rule succeeded_found)

lemma ok_odd: "ok odd_body"
  by (simp add: ok_def odd_body_def)

lemma settle_odd:
  "settle_one t (Inr odd_body)
   = Some \<lparr>type = t, data = JStr ''none'', success = True, error = None\<rparr>"
  by (simp add: settle_one_def ok_odd) (simp add: odd_body_def or_empty_def)

text \<open>
  C8, as the code has it. Once its sub-requests are issued, their URLs carrying the
  encoded query \<open>q\<close>, \<^verbatim>\<open>executeParallelSearches\<close> takes the settled outcome of every
  one of them. When each issued sub-request either succeeded with an array of
  items or failed (rejected fetch, timeout, status outside 200-299, body that is not JSON
  or is \<^verbatim>\<open>null\<close>), the call resolves, with no error, to the items of the page
  sub-request, each tagged \<open>_type = page\<close>, followed by the items of the collection
  sub-request, each tagged \<open>_type = cms\<close>; a failed sub-request stands for no items and
  does not disturb the other. The hypotheses range over the controller number and the
  aborted controllers, on which the outcome of a sub-request does not depend.
\<close>

theorem partial_failure_merge:
  assumes enc: "declared selectedOption \<noteq> [] \<Longrightarrow> encodeURIComponent query = Inr q"
    and page: "\<And>n cs. ''page'' \<in> set (declared selectedOption) \<Longrightarrow>
      yields (snd (subrequest (token cfg) net n (searchIndexUrl q cfg) cs)) pageItems"
    and cms: "\<And>n cs. ''cms'' \<in> set (declared selectedOption) \<Longrightarrow>
      yields (snd (subrequest (token cfg) net n (searchCmsUrl q cfg) cs)) cmsItems"
  shows "fst (executeParallelSearches query selectedOption cfg net st) =
     Some (Inr ((if selectedOption = ''Pages'' \<or> selectedOption = ''Both''
                 then map (tag ''page'') pageItems else [])
              @ (if selectedOption = ''Collection'' \<or> selectedOption = ''Both''
                 then map (tag ''cms'') cmsItems else [])))"
proof -
  let ?p = "snd (subrequest (token cfg) net 0 (searchIndexUrl q cfg) {})"
  let ?c = "snd (subrequest (token cfg) net 0 (searchCmsUrl q cfg) {})"
  have eq: "fst (executeParallelSearches query selectedOption cfg net st) =
     map_option (\<lambda>rs. merge rs [])
       (allSettled (map (\<lambda>t. settle_one t (snd (subrequest (token cfg) net 0 (searchUrl t q cfg) {})))
          (declared selectedOption)))"
    by (rule executeParallelSearches_merge) (rule enc)
  consider (both) "selectedOption = ''Both''" | (pages) "selectedOption = ''Pages''"
    | (coll) "selectedOption = ''Collection''"
    | (none) "selectedOption \<noteq> ''Both''" "selectedOption \<noteq> ''Pages''"
        "selectedOption \<noteq> ''Collection''"
    by blast
  then show ?thesis
  proof cases
    case both
    have yp: "yields ?p pageItems" by (rule page) (simp add: both declared_def)
    have yc: "yields ?c cmsItems" by (rule cms) (simp add: both declared_def)
    have "map_option (\<lambda>rs. merge rs [])
        (allSettled [settle_one ''page'' ?p, settle_one ''cms'' ?c])
        = Some (Inr (map (tag ''page'') pageItems @ map (tag ''cms'') cmsItems))"
      by (simp only: settle_step [OF yp] settle_step [OF yc]) simp
    then show ?thesis unfolding eq
      by (simp add: both declared_def searchUrl_page searchUrl_cms)
  next
    case pages
    have yp: "yields ?p pageItems" by (rule page) (simp add: pages declared_def)
    have "map_option (\<lambda>rs. merge rs []) (allSettled [settle_one ''page'' ?p])
        = Some (Inr (map (tag ''page'') pageItems))"
      by (simp only: settle_step [OF yp]) simp
    then show ?thesis unfolding eq
      by (simp add: pages declared_def searchUrl_page)
  next
    case coll
    have yc: "yields ?c cmsItems" by (rule cms) (simp add: coll declared_def)
    have "map_option (\<lambda>rs. merge rs []) (allSettled [settle_one ''cms'' ?c])
        = Some (Inr (map (tag ''cms'') cmsItems))"
      by (simp only: settle_step [OF yc]) simp
    then show ?thesis unfolding eq
      by (simp add: coll declared_def searchUrl_cms)
  next
    case none
    then show ?thesis unfolding eq by (simp add: declared_def)
  qed
qed

text \<open>
  The theorem at the option \<open>Both\<close>, the page sub-request succeeding with the items
  \<open>a\<close> and \<open>b\<close> and the collection sub-request failing on both attempts: the call
  resolves to \<open>a\<close> and \<open>b\<close> tagged \<open>page\<close>.
\<close>

theorem partial_failure_merge_witness:
  "encodeURIComponent (units ''shoe'') = Inr ''shoe''
   \<and> yields (snd (subrequest (token site) (net_page_only [item ''a'', item ''b'']) 0
        (searchIndexUrl ''shoe'' site) {})) [item ''a'', item ''b'']
   \<and> failed (snd (subrequest (token site) (net_page_only [item ''a'', item ''b'']) 0
        (searchCmsUrl ''shoe'' site) {}))
   \<and> yields (snd (subrequest (token site) (net_page_only [item ''a'', item ''b'']) 0
        (searchCmsUrl ''shoe'' site) {})) []
   \<and> fst (executeParallelSearches (units ''shoe'') ''Both'' site
        (net_page_only [item ''a'', item ''b'']) initial_state)
      = Some (Inr [JObj [(''name'', JStr ''a''), (''_type'', JStr ''page'')],
                   JObj [(''name'', JStr ''b''), (''_type'', JStr ''page'')]])"
proof -
  let ?net = "net_page_only [item ''a'', item ''b'']"
  have p: "subrequest (token site) ?net n (searchIndexUrl ''shoe'' site) cs
      = ([FetchCall], Inr (found [item ''a'', item ''b'']))" for n cs
    by (rule subrequest_arrives [where d = 400]) (simp_all add: net_page_only_def is_index_page)
  have c: "subrequest (token site) ?net n (searchCmsUrl ''shoe'' site) cs
      = ([FetchCall, Backoff 300, FetchCall], Inl FetchFailed)" for n cs
    by (rule subrequest_fails_twice [where d = 20 and d' = 20])
       (simp_all add: net_page_only_def is_index_cms)
  have yp: "yields (snd (subrequest (token site) ?net n (searchIndexUrl ''shoe'' site) cs))
      [item ''a'', item ''b'']" for n cs
    by (simp add: p yields_found)
  have fc: "failed (snd (subrequest (token site) ?net n (searchCmsUrl ''shoe'' site) cs))" for n cs
    by (simp add: c failed_rejected)
  have yc: "yields (snd (subrequest (token site) ?net n (searchCmsUrl ''shoe'' site) cs)) []"
    for n cs
    by (simp add: c yields_def failed_rejected)
  have "fst (executeParallelSearches (units ''shoe'') ''Both'' site ?net initial_state)
      = Some (Inr (map (tag ''page'') [item ''a'', item ''b''] @ map (tag ''cms'') []))"
    using partial_failure_merge [of "''Both''" "units ''shoe''" "''shoe''" site ?net
        "[item ''a'', item ''b'']" "[]" initial_state] enc_shoe yp yc
    by simp
  then have "fst (executeParallelSearches (units ''shoe'') ''Both'' site ?net initial_state)
      = Some (Inr [JObj [(''name'', JStr ''a''), (''_type'', JStr ''page'')],
                   JObj [(''name'', JStr ''b''), (''_type'', JStr ''page'')]])"
    by (simp add: tag_item)
  with enc_shoe yp [of 0 "{}"] fc [of 0 "{}"] yc [of 0 "{}"] show ?thesis by blast
qed

text \<open>
  C8 as claimed fails. Under \<open>Both\<close> the page sub-request succeeds with the item \<open>p\<close>, and
  the collection sub-request gets a 200 response whose body is
  \<^verbatim>\<open>{"results": "none"}\<close>. Line 107 marks the collection sub-request successful with the
  string as its data, line 120 calls \<^verbatim>\<open>map\<close> on the string and throws, and the call
  rejects: the items of the page sub-request are not delivered.
\<close>

theorem merge_aborted_counterexample:
  "succeeded (snd (subrequest (token site) (net_cms_odd [item ''p'']) 0
        (searchIndexUrl ''shoe'' site) {})) [item ''p'']
   \<and> settle_one ''cms'' (snd (subrequest (token site) (net_cms_odd [item ''p'']) 0
        (searchCmsUrl ''shoe'' site) {}))
      = Some \<lparr>type = ''cms'', data = JStr ''none'', success = True, error = None\<rparr>
   \<and> fst (executeParallelSearches (units ''shoe'') ''Both'' site (net_cms_odd [item ''p''])
        initial_state) = Some (Inl NotAFunction)"
proof -
  let ?net = "net_cms_odd [item ''p'']"
  have p: "subrequest (token site) ?net 0 (searchIndexUrl ''shoe'' site) {}
      = ([FetchCall], Inr (found [item ''p'']))"
    by (rule subrequest_arrives [where d = 400]) (simp_all add: net_cms_odd_def is_index_page)
  have c: "subrequest (token site) ?net 0 (searchCmsUrl ''shoe'' site) {}
      = ([FetchCall], Inr odd_body)"
    by (rule subrequest_arrives [where d = 400]) (simp_all add: net_cms_odd_def is_index_cms)
  have "fst (executeParallelSearches (units ''shoe'') ''Both'' site ?net initial_state)
      = Some (Inl NotAFunction)"
    by (simp add: executeParallelSearches_merge [where q = "''shoe''" and n = 0 and cs = "{}"]
        enc_shoe declared_def searchUrl_page searchUrl_cms p c settle_found settle_odd
        map_items_def)
  then show ?thesis by (simp add: p c succeeded_found settle_odd)
qed

lemma conforms_found: "conforms (Inr (found items))"
  by (simp add: conforms_def ok_found) (simp add: found_def)

lemma subrequest_found:
  "subrequest tok (net_found items) n url cs = ([FetchCall], Inr (found items))"
  by (rule subrequest_arrives [where d = 400]) (simp_all add: net_found_def)

lemma subrequest_down:
  "subrequest tok net_down n url cs = ([FetchCall, Backoff 300, FetchCall], Inl FetchFailed)"
  by (rule subrequest_fails_twice [where d = 20 and d' = 20]) (simp_all add: net_down_def)

lemma settle_stalled: "settle_one t (Inr stalled_body) = None"
  by (simp add: settle_one_def ok_def stalled_body_def)

text \<open>
  C9, as the code has it. Let the query be one that \<^verbatim>\<open>encodeURIComponent\<close> accepts (no
  surrogate standing alone) whenever a sub-request is to be issued, and let every issued
  sub-request keep the response contract: the body of a 2xx response completes, and what
  it carries under \<^verbatim>\<open>results\<close>, when it is JSON, is an array, or is falsy or missing. Then
  \<^verbatim>\<open>executeParallelSearches\<close> resolves to a result sequence: it neither rejects nor stays
  pending. And when every issued sub-request fails (network error, timeout, status
  outside 200-299, body that is not JSON), it resolves to the empty sequence.
\<close>

theorem resolves_on_contract:
  assumes enc: "declared selectedOption \<noteq> [] \<Longrightarrow> encodeURIComponent query = Inr q"
    and conf: "\<And>t n cs. t \<in> set (declared selectedOption) \<Longrightarrow>
      conforms (snd (subrequest (token cfg) net n (searchUrl t q cfg) cs))"
  shows "(\<exists>items. fst (executeParallelSearches query selectedOption cfg net st) = Some (Inr items))
    \<and> ((\<forall>t \<in> set (declared selectedOption). \<forall>n cs.
           failed (snd (subrequest (token cfg) net n (searchUrl t q cfg) cs)))
        \<longrightarrow> fst (executeParallelSearches query selectedOption cfg net st) = Some (Inr []))"
proof
  have eq: "fst (executeParallelSearches query selectedOption cfg net st) =
     map_option (\<lambda>rs. merge rs [])
       (allSettled (map (\<lambda>t. settle_one t (snd (subrequest (token cfg) net 0 (searchUrl t q cfg) {})))
          (declared selectedOption)))"
    by (rule executeParallelSearches_merge) (rule enc)
  have "\<exists>items. yields (snd (subrequest (token cfg) net 0 (searchUrl t q cfg) {})) items"
    if "t \<in> set (declared selectedOption)" for t
    using conf [OF that] by (rule conforms_yields)
  then have "\<exists>res. map_option (\<lambda>rs. merge rs [])
       (allSettled (map (\<lambda>t. settle_one t (snd (subrequest (token cfg) net 0 (searchUrl t q cfg) {})))
          (declared selectedOption))) = Some (Inr res)"
    by (rule settle_all_yield)
  then show "\<exists>items. fst (executeParallelSearches query selectedOption cfg net st) = Some (Inr items)"
    by (simp only: eq)
  show "(\<forall>t \<in> set (declared selectedOption). \<forall>n cs.
           failed (snd (subrequest (token cfg) net n (searchUrl t q cfg) cs)))
        \<longrightarrow> fst (executeParallelSearches query selectedOption cfg net st) = Some (Inr [])"
  proof
    assume all: "\<forall>t \<in> set (declared selectedOption). \<forall>n cs.
           failed (snd (subrequest (token cfg) net n (searchUrl t q cfg) cs))"
    have "map_option (\<lambda>rs. merge rs [])
       (allSettled (map (\<lambda>t. settle_one t (snd (subrequest (token cfg) net 0 (searchUrl t q cfg) {})))
          (declared selectedOption))) = Some (Inr [])"
      by (rule settle_all_failed) (use all in blast)
    then show "fst (executeParallelSearches query selectedOption cfg net st) = Some (Inr [])"
      by (simp only: eq)
  qed
qed

text \<open>
  The theorem at the option \<open>Both\<close> and the query \<open>shoe\<close>: with a server that answers
  both indexes with an item, and with a server that cannot be reached.
\<close>

theorem resolves_on_contract_witness:
  "encodeURIComponent (units ''shoe'') = Inr ''shoe''
   \<and> conforms (snd (subrequest (token site) (net_found [item ''a'']) 0
        (searchUrl ''page'' ''shoe'' site) {}))
   \<and> conforms (snd (subrequest (token site) (net_found [item ''a'']) 0
        (searchUrl ''cms'' ''shoe'' site) {}))
   \<and> (\<exists>items. fst (executeParallelSearches (units ''shoe'') ''Both'' site
          (net_found [item ''a'']) initial_state) = Some (Inr items))
   \<and> failed (snd (subrequest (token site) net_down 0 (searchUrl ''page'' ''shoe'' site) {}))
   \<and> failed (snd (subrequest (token site) net_down 0 (searchUrl ''cms'' ''shoe'' site) {}))
   \<and> fst (executeParallelSearches (units ''shoe'') ''Both'' site net_down initial_state)
       = Some (Inr [])"
proof -
  have cf: "conforms (snd (subrequest (token site) (net_found [item ''a'']) n url cs))"
    for n url cs
    by (simp add: subrequest_found conforms_found)
  have cd: "conforms (snd (subrequest (token site) net_down n url cs))" for n url cs
    by (simp add: subrequest_down conforms_def)
  have fd: "failed (snd (subrequest (token site) net_down n url cs))" for n url cs
    by (simp add: subrequest_down failed_rejected)
  have "\<exists>items. fst (executeParallelSearches (units ''shoe'') ''Both'' site
          (net_found [item ''a'']) initial_state) = Some (Inr items)"
    using resolves_on_contract [of "''Both''" "units ''shoe''" "''shoe''" site
        "net_found [item ''a'']" initial_state] enc_shoe cf
    by blast
  moreover have "fst (executeParallelSearches (units ''shoe'') ''Both'' site net_down
      initial_state) = Some (Inr [])"
    using resolves_on_contract [of "''Both''" "units ''shoe''" "''shoe''" site
        net_down initial_state] enc_shoe cd fd
    by blast
  ultimately show ?thesis using enc_shoe cf fd by blast
qed

text \<open>
  C9 as claimed, for every input, fails in three ways. A query that is a high surrogate
  alone makes \<^verbatim>\<open>encodeURIComponent\<close> throw at line 87, outside any \<^verbatim>\<open>try\<close>: the call
  rejects with a \<^verbatim>\<open>URIError\<close>. A 200 response whose body is \<^verbatim>\<open>{"results": "none"}\<close>
  makes line 107 keep the string as \<^verbatim>\<open>data\<close> with \<^verbatim>\<open>success: true\<close>, and line 120
  calls \<^verbatim>\<open>map\<close> on it: the call rejects with a \<^verbatim>\<open>TypeError\<close>. A 200 response whose
  body never completes leaves \<^verbatim>\<open>response.json()\<close> at line 106 unsettled, the timer being
  cleared at line 60: the call stays pending.
\<close>

theorem rejects_or_hangs_counterexample:
  "fst (executeParallelSearches [0xD800] ''Pages'' site (net_found [item ''a'']) initial_state)
     = Some (Inl URIError)
   \<and> ok odd_body
   \<and> json_body odd_body = Parsed (JObj [(''results'', JStr ''none'')])
   \<and> fst (executeParallelSearches (units ''shoe'') ''Pages'' site net_odd initial_state)
     = Some (Inl NotAFunction)
   \<and> ok stalled_body
   \<and> json_body stalled_body = NeverCompletes
   \<and> fst (executeParallelSearches (units ''shoe'') ''Pages'' site net_stalled initial_state)
     = None"
proof -
  have a: "fst (executeParallelSearches [0xD800] ''Pages'' site (net_found [item ''a''])
      initial_state) = Some (Inl URIError)"
    by (rule executeParallelSearches_throws) (simp_all add: declared_def enc_lone_surrogate)
  have so: "subrequest (token site) net_odd 0 (searchIndexUrl ''shoe'' site) {}
      = ([FetchCall], Inr odd_body)"
    by (rule subrequest_arrives [where d = 400]) (simp_all add: net_odd_def)
  have b: "fst (executeParallelSearches (units ''shoe'') ''Pages'' site net_odd initial_state)
      = Some (Inl NotAFunction)"
    by (simp add: executeParallelSearches_merge [where q = "''shoe''" and n = 0 and cs = "{}"]
        enc_shoe declared_def searchUrl_page so settle_odd map_items_def)
  have ss: "subrequest (token site) net_stalled 0 (searchIndexUrl ''shoe'' site) {}
      = ([FetchCall], Inr stalled_body)"
    by (rule subrequest_arrives [where d = 400]) (simp_all add: net_stalled_def)
  have c: "fst (executeParallelSearches (units ''shoe'') ''Pages'' site net_stalled initial_state)
      = None"
    by (simp add: executeParallelSearches_merge [where q = "''shoe''" and n = 0 and cs = "{}"]
        enc_shoe declared_def searchUrl_page ss settle_stalled)
  have "ok stalled_body" by (simp add: ok_def stalled_body_def)
  moreover have "json_body stalled_body = NeverCompletes" by (simp add: stalled_body_def)
  moreover have "json_body odd_body = Parsed (JObj [(''results'', JStr ''none'')])"
    by (simp add: odd_body_def)
  ultimately show ?thesis using a b c ok_odd by blast
qed

subsection \<open>Retries\<close>

text \<open>
  C2, as the code has it. \<^verbatim>\<open>optimizedFetch\<close> with its default of one retry fetches a
  second time exactly when the first fetch fails with a network failure before the
  10 s timer fires; it then waits 300 ms, fetches once more, and what the second fetch
  gives is final. When the timer fires first the fetch rejects with an \<^verbatim>\<open>AbortError\<close>
  and nothing is retried. When a response arrives it is returned without a retry whatever
  its status, and \<^verbatim>\<open>executeParallelSearches\<close> counts a response with a status outside
  200-299 as failed, with its status text as the error.
\<close>

theorem retry_policy:
  "optimizedFetch cs wires options 1 =
     (case wires 0 of
        Arrives d r \<Rightarrow> ([FetchCall], if 10000 \<le> d then Inl AbortError else Inr r)
      | Fails d \<Rightarrow>
          if 10000 \<le> d then ([FetchCall], Inl AbortError)
          else ([FetchCall, Backoff 300, FetchCall],
                case wires 1 of
                  Arrives d' r' \<Rightarrow> if 10000 \<le> d' then Inl AbortError else Inr r'
                | Fails d' \<Rightarrow> if 10000 \<le> d' then Inl AbortError else Inl FetchFailed))
   \<and> (\<not> ok resp \<longrightarrow>
        settle_one t (Inr resp)
        = Some \<lparr>type = t, data = JArr [], success = False, error = Some (statusText resp)\<rparr>)"
proof
  show "optimizedFetch cs wires options 1 =
     (case wires 0 of
        Arrives d r \<Rightarrow> ([FetchCall], if 10000 \<le> d then Inl AbortError else Inr r)
      | Fails d \<Rightarrow>
          if 10000 \<le> d then ([FetchCall], Inl AbortError)
          else ([FetchCall, Backoff 300, FetchCall],
                case wires 1 of
                  Arrives d' r' \<Rightarrow> if 10000 \<le> d' then Inl AbortError else Inr r'
                | Fails d' \<Rightarrow> if 10000 \<le> d' then Inl AbortError else Inl FetchFailed))"
    by (simp add: optimizedFetch_once fetch_requestInit split: wire.split)
  show "\<not> ok resp \<longrightarrow>
        settle_one t (Inr resp)
        = Some \<lparr>type = t, data = JArr [], success = False, error = Some (statusText resp)\<rparr>"
    by (simp add: settle_one_def)
qed

text \<open>The theorem for a server that cannot be reached, and for a 503 response.\<close>

theorem retry_policy_witness:
  "optimizedFetch {} (every_attempt (Fails 20)) bare_options 1
     = ([FetchCall, Backoff 300, FetchCall], Inl FetchFailed)
   \<and> \<not> ok unavailable
   \<and> settle_one ''page'' (Inr unavailable)
     = Some \<lparr>type = ''page'', data = JArr [], success = False,
             error = Some ''Service Unavailable''\<rparr>"
proof -
  have n: "\<not> ok unavailable" by (simp add: ok_def unavailable_def)
  have s: "statusText unavailable = ''Service Unavailable''" by (simp add: unavailable_def)
  from retry_policy [of "{}" "every_attempt (Fails 20)" bare_options unavailable "''page''"] n s
  show ?thesis by (simp add: every_attempt_def)
qed

text \<open>
  C2 as claimed fails: a 503 response is fetched once and counted as failed, and a
  request that is not answered within 10 s (a response due after 15 s, a connection that
  would fail after 10 s) is fetched once and rejected with an \<^verbatim>\<open>AbortError\<close>.
\<close>

theorem no_retry_counterexample:
  "\<not> ok unavailable
   \<and> optimizedFetch {} (every_attempt (Arrives 50 unavailable)) bare_options 1
       = ([FetchCall], Inr unavailable)
   \<and> settle_one ''page'' (Inr unavailable)
       = Some \<lparr>type = ''page'', data = JArr [], success = False,
               error = Some ''Service Unavailable''\<rparr>
   \<and> optimizedFetch {} (every_attempt (Arrives 15000 (found []))) bare_options 1
       = ([FetchCall], Inl AbortError)
   \<and> optimizedFetch {} (every_attempt (Fails 10000)) bare_options 1
       = ([FetchCall], Inl AbortError)"
proof -
  have n: "\<not> ok unavailable" by (simp add: ok_def unavailable_def)
  then have "settle_one ''page'' (Inr unavailable)
       = Some \<lparr>type = ''page'', data = JArr [], success = False,
               error = Some ''Service Unavailable''\<rparr>"
    by (simp add: settle_one_def) (simp add: unavailable_def)
  with n show ?thesis
    by (simp add: optimizedFetch_once every_attempt_def)
qed

subsection \<open>Searches and the cache\<close>

lemma lower_shoe: "toLowerCase ''shoe'' = ''shoe''"
  by code_simp

lemma lower_shoes: "toLowerCase ''shoes'' = ''shoes''"
  by code_simp

lemma lower_zzz: "toLowerCase ''zzz'' = ''zzz''"
  by code_simp

lemma urls_differ: "searchIndexUrl ''shoes'' site \<noteq> searchIndexUrl ''shoe'' site"
  by (simp add: searchIndexUrl_def)

lemma subrequest_shoe:
  "subrequest tok net_by_query n (searchIndexUrl ''shoe'' site) cs
   = ([FetchCall], Inr (found [item ''Shoe A'']))"
  by (rule subrequest_arrives [where d = 400]) (simp_all add: net_by_query_def)

lemma subrequest_shoes:
  "subrequest tok net_by_query n (searchIndexUrl ''shoes'' site) cs
   = ([FetchCall], Inr (found [item ''Shoe B'']))"
  by (rule subrequest_arrives [where d = 400]) (simp_all add: net_by_query_def urls_differ)

text \<open>
  C1 does not hold of the code. The first preload (query \<open>shoe\<close>) gets search controller
  0 and passes its signal in \<^verbatim>\<open>options\<close>; line 52 replaces that signal by the signal of
  the timeout controller, so it never reaches \<^verbatim>\<open>fetch\<close>. The second preload (query
  \<open>shoes\<close>) starts while the sub-request of the first is outstanding and aborts
  controller 0. The response to the first still arrives: the first call resolves to its
  item, tagged, and writes it into the cache.
\<close>

theorem superseded_search_is_merged_and_cached:
  "currentSearchController
      (snd (executeParallelSearches_issue (units ''shoe'') ''Pages'' site net_by_query
              initial_state)) = Some 0
   \<and> superseded_preload ''shoe'' ''shoes'' ''Pages'' site net_by_query 1000 2000 initial_state
      = (Some (Inr [tag ''page'' (item ''Shoe A'')]),
         \<lparr>searchCache =
            [(''shoe_Pages'', \<lparr>results = [tag ''page'' (item ''Shoe A'')], timestamp = 1000\<rparr>),
             (''shoes_Pages'', \<lparr>results = [tag ''page'' (item ''Shoe B'')], timestamp = 2000\<rparr>)],
          currentSearchController = Some 1, cancelled = {0}, controllers = 2\<rparr>)"
  by (simp add: superseded_preload_def executeParallelSearches_issue_def
      executeParallelSearches_settle_def preloadSearchData_resume_def initial_state_def
      enc_shoe enc_shoes subrequest_shoe subrequest_shoes settle_found map_items_def
      setCachedResults_def MAX_CACHE_SIZE_def cacheKey_def lower_shoe lower_shoes)

text \<open>
  C3 does not hold of \<^verbatim>\<open>performSearchFast\<close>. After a miss, with the server answering
  with no items, \<^verbatim>\<open>performSearchFast\<close> shows the no-results message and returns at
  line 1372, before the store of line 1375: the cache stays empty.
  \<^verbatim>\<open>preloadSearchData\<close>, on the same input, stores the empty sequence.
\<close>

theorem empty_result_not_cached:
  "performSearchFast ''zzz'' ''Pages'' site (net_found []) 1000 2000 initial_state
     = (NoResultsMessage,
        \<lparr>searchCache = [], currentSearchController = Some 0, cancelled = {}, controllers = 1\<rparr>)
   \<and> preloadSearchData ''zzz'' ''Pages'' site (net_found []) 2000 initial_state
     = \<lparr>searchCache = [(''zzz_Pages'', \<lparr>results = [], timestamp = 2000\<rparr>)],
        currentSearchController = Some 0, cancelled = {}, controllers = 1\<rparr>"
  by (simp add: performSearchFast_def preloadSearchData_def getCachedResults_def
      executeParallelSearches_def executeParallelSearches_issue_def
      executeParallelSearches_settle_def initial_state_def enc_zzz
      subrequest_found settle_found map_items_def setCachedResults_def
      MAX_CACHE_SIZE_def cacheKey_def lower_zzz)

end
